theory Spec2Isabelle
  imports Main "HOL-Library.AList"
begin

section \<open>Python values\<close>

text \<open>
  The values that reach the caching library are arbitrary Python objects. They are modelled
  by what the library's code observes of them: the name of their runtime type, whether they
  are a logger, whether they carry an attribute namespace (\<open>__dict__\<close>), whether they are a
  \<open>dict\<close>, and whether they are iterable. Values are finite trees: an object that (transitively)
  contains itself has no counterpart here (on such an object the recursion of
  \<open>_hash_content\<close> ends in Python's \<open>RecursionError\<close>).

  \<^item> \<open>Atom tn a\<close>: a value without \<open>__dict__\<close> that is not a dict and is either not iterable or
    one of \<open>str\<close>, \<open>bytes\<close>, \<open>bytearray\<close>, \<open>IOBase\<close>; \<open>tn\<close> is \<open>type(obj).__name__\<close>.
  \<^item> \<open>Logger tn name\<close>: an instance of \<open>logging.getLoggerClass()\<close> with its \<open>name\<close>.
  \<^item> \<open>Iter tn xs\<close>: an iterable without \<open>__dict__\<close> (list, tuple, set, ...), with its elements in
    iteration order.
  \<^item> \<open>Dict tn d\<close>: a dict without \<open>__dict__\<close> (a plain \<open>dict\<close> has \<open>tn = ''dict''\<close>), its items in
    insertion order; the keys of a dict are pairwise distinct.
  \<^item> \<open>Inst tn proxy ns nm d\<close>: any other object with a \<open>__dict__\<close>: \<open>proxy\<close> says that the
    \<open>__dict__\<close> is a \<open>MappingProxyType\<close> (the object is a class), \<open>ns\<close> are the items of the
    \<open>__dict__\<close>, \<open>nm\<close> is \<open>getattr(obj, '__name__', None)\<close>, and \<open>d\<close> are the items of the object
    itself when it is an instance of (a subclass of) \<open>dict\<close>.

  Dictionary keys are strings or integers, so that HOL's equality on keys is Python's.
\<close>

datatype atom = ANone | ABool bool | AInt int | AStr string
datatype pykey = KStr string | KInt int

datatype pyval =
    Atom string atom
  | Logger string string
  | Iter string "pyval list"
  | Dict string "(pykey \<times> pyval) list"
  | Inst string bool "(string \<times> pyval) list" pyval "(pykey \<times> pyval) list option"

datatype canon = CRaw atom | CTuple "int list" | CFrozenset "(pykey \<times> int) set"
datatype shape = IsDict "(pykey \<times> pyval) list" | IsIterable "pyval list" | IsOther atom

fun typename :: "pyval \<Rightarrow> string" where
  "typename (Atom tn a) = tn"
| "typename (Logger tn name) = tn"
| "typename (Iter tn xs) = tn"
| "typename (Dict tn d) = tn"
| "typename (Inst tn proxy ns nm d) = tn"

text \<open>Some Python values by name.\<close>

definition py_str :: "string \<Rightarrow> pyval" where "py_str s = Atom ''str'' (AStr s)"
definition py_none :: pyval where "py_none = Atom ''NoneType'' ANone"
definition py_dict :: "(pykey \<times> pyval) list \<Rightarrow> pyval" where "py_dict d = Dict ''dict'' d"

definition py_int :: "int \<Rightarrow> pyval" where "py_int n = Atom ''int'' (AInt n)"
definition py_list :: "pyval list \<Rightarrow> pyval" where "py_list xs = Iter ''list'' xs"
definition py_tuple :: "pyval list \<Rightarrow> pyval" where "py_tuple xs = Iter ''tuple'' xs"

section \<open>ContentHasher: \<open>_hash_content\<close> (cached.py)\<close>

text \<open>
  \<open>canon\<close> is the first component of the pair that \<open>_hash_content\<close> hands to Python's builtin
  \<open>hash\<close>: the raw value, a tuple of hashes, or a frozenset of (key, hash) pairs. The builtin
  \<open>hash\<close> of the pair \<open>(obj, typename)\<close> is the parameter \<open>h\<close> of \<open>hash_content\<close>: it is a function
  of the pair's value, as Python requires of \<open>__hash__\<close> (equal objects hash equal), and a
  frozenset is its set of elements.

  \<open>objdict\<close> is the local variable of that name: the attribute namespace (without the names that
  start with two underscores when the object is a class), then the two tagging assignments,
  each an in-place dict update. \<open>rewrite\<close> is the first \<open>if\<close>/\<open>elif\<close> of the source: what \<open>obj\<close>
  refers to after it.
\<close>

definition objdict :: "string \<Rightarrow> bool \<Rightarrow> (string \<times> pyval) list \<Rightarrow> pyval \<Rightarrow> (pykey \<times> pyval) list" where
  "objdict tn proxy ns nm =
     AList.update (KStr ''___classname'') (py_str tn)
       (AList.update (KStr ''___name'') nm
          (map (\<lambda>(k, v). (KStr k, v))
             (if proxy then filter (\<lambda>(k, v). take 2 k \<noteq> ''__'') ns else ns)))"

fun rewrite :: "pyval \<Rightarrow> shape" where
  "rewrite (Logger tn name) = IsOther (AStr name)"
| "rewrite (Inst tn proxy ns nm None) = IsDict (objdict tn proxy ns nm)"
| "rewrite (Inst tn proxy ns nm (Some d)) =
     IsDict (AList.update (KStr ''___objdict'') (py_dict (objdict tn proxy ns nm)) d)"
| "rewrite (Dict tn d) = IsDict d"
| "rewrite (Iter tn xs) = IsIterable xs"
| "rewrite (Atom tn a) = IsOther a"

text \<open>The measure under which the recursion of \<open>_hash_content\<close> ends.\<close>

fun wt :: "pyval \<Rightarrow> nat" where
  "wt (Atom tn a) = 0"
| "wt (Logger tn name) = 0"
| "wt (Iter tn xs) = Suc (sum_list (map wt xs))"
| "wt (Dict tn d) = Suc (sum_list (map (\<lambda>(k, v). wt v) d))"
| "wt (Inst tn proxy ns nm dopt) =
     3 + wt nm + sum_list (map (\<lambda>(k, v). wt v) ns)
       + (case dopt of None \<Rightarrow> 0 | Some d \<Rightarrow> sum_list (map (\<lambda>(k, v). wt v) d))"

lemma wt_mem: "(k, v) \<in> set d \<Longrightarrow> wt v \<le> sum_list (map (\<lambda>(k, v). wt v) d)"
  by (induction d) auto

lemma wt_update:
  "sum_list (map (\<lambda>(k, v). wt v) (AList.update k v d)) \<le> wt v + sum_list (map (\<lambda>(k, v). wt v) d)"
  by (induction d) auto

lemma wt_filter:
  "sum_list (map (\<lambda>(k, v). wt v) (map (\<lambda>(k, v). (KStr k, v)) (filter P ns)))
     \<le> sum_list (map (\<lambda>(k, v). wt v) ns)"
  by (induction ns) auto

lemma wt_objdict:
  "sum_list (map (\<lambda>(k, v). wt v) (objdict tn proxy ns nm)) \<le> wt nm + sum_list (map (\<lambda>(k, v). wt v) ns)"
proof -
  let ?ns = "map (\<lambda>(k, v). (KStr k, v)) (if proxy then filter (\<lambda>(k, v). take 2 k \<noteq> ''__'') ns else ns)"
  have a: "sum_list (map (\<lambda>(k, v). wt v) ?ns) \<le> sum_list (map (\<lambda>(k, v). wt v) ns)"
    using wt_filter [of "\<lambda>(k, v). take 2 k \<noteq> ''__''" ns] wt_filter [of "\<lambda>x. True" ns]
    by (cases proxy) simp_all
  have b: "sum_list (map (\<lambda>(k, v). wt v) (AList.update (KStr ''___name'') nm ?ns))
        \<le> wt nm + sum_list (map (\<lambda>(k, v). wt v) ?ns)"
    by (rule wt_update)
  have c: "sum_list (map (\<lambda>(k, v). wt v) (objdict tn proxy ns nm))
        \<le> wt (py_str tn) + sum_list (map (\<lambda>(k, v). wt v) (AList.update (KStr ''___name'') nm ?ns))"
    unfolding objdict_def by (rule wt_update)
  have d: "wt (py_str tn) = 0" by (simp add: py_str_def)
  from a b c d show ?thesis by linarith
qed

lemma wt_rewrite_dict: "rewrite obj = IsDict d \<Longrightarrow> (k, v) \<in> set d \<Longrightarrow> wt v < wt obj"
proof (cases obj)
  case (Inst tn proxy ns nm dopt)
  assume r: "rewrite obj = IsDict d" and m: "(k, v) \<in> set d"
  show ?thesis
  proof (cases dopt)
    case None
    with r Inst have "d = objdict tn proxy ns nm" by simp
    with m wt_mem [of k v d] wt_objdict [of tn proxy ns nm] Inst None show ?thesis by simp
  next
    case (Some d0)
    with r Inst have d: "d = AList.update (KStr ''___objdict'') (py_dict (objdict tn proxy ns nm)) d0" by simp
    have "wt v \<le> sum_list (map (\<lambda>(k, v). wt v) d)" using m by (rule wt_mem)
    also have "\<dots> \<le> wt (py_dict (objdict tn proxy ns nm)) + sum_list (map (\<lambda>(k, v). wt v) d0)"
      unfolding d by (rule wt_update)
    also have "\<dots> \<le> Suc (wt nm + sum_list (map (\<lambda>(k, v). wt v) ns)) + sum_list (map (\<lambda>(k, v). wt v) d0)"
      using wt_objdict [of tn proxy ns nm] by (simp add: py_dict_def)
    finally show ?thesis using Inst Some by simp
  qed
qed (auto dest: wt_mem simp: less_Suc_eq_le)

lemma wt_rewrite_iter: "rewrite obj = IsIterable xs \<Longrightarrow> x \<in> set xs \<Longrightarrow> wt x < wt obj"
proof (cases obj)
  case (Iter tn ys)
  assume "rewrite obj = IsIterable xs" and m: "x \<in> set xs"
  with Iter have "ys = xs" by simp
  moreover have "wt x \<le> sum_list (map wt xs)" using m by (simp add: member_le_sum_list)
  ultimately show ?thesis using Iter by simp
next
  case (Inst tn proxy ns nm dopt)
  assume "rewrite obj = IsIterable xs"
  with Inst show ?thesis by (cases dopt) simp_all
qed auto

function hash_content :: "(canon \<times> string \<Rightarrow> int) \<Rightarrow> pyval \<Rightarrow> int" where
  "hash_content h obj =
     h (case rewrite obj of
          IsDict d \<Rightarrow> CFrozenset (set (map (\<lambda>(k, v). (k, hash_content h v)) d))
        | IsIterable xs \<Rightarrow> CTuple (map (hash_content h) xs)
        | IsOther a \<Rightarrow> CRaw a,
        typename obj)"
  by pat_completeness auto
termination
  apply (relation "measure (\<lambda>(h, obj). wt obj)")
  subgoal by simp
  subgoal for h obj d kv k v using wt_rewrite_dict [of obj d k v] by auto
  subgoal for h obj xs x by (simp add: wt_rewrite_iter)
  done

declare hash_content.simps [simp del]

section \<open>Outcomes, locks and events\<close>

text \<open>
  A call of the library returns a value, raises an exception, or waits for ever for a lock that
  is held (\<open>threading.Lock\<close> is not reentrant and has no timeout here): \<open>Blocked\<close>. \<open>seq\<close> runs
  a second step on the state the first one returned in.

  The state carries a trace of events: the lock operations, in the order in which they happen,
  the removals of lock entries, and the invocations of the wrapped callables. The trace is how
  "is not invoked", "exactly once" and "acquires no lock" are stated.
\<close>

datatype pyerr =
    ValueError string
  | TypeError string
  | KeyError pykey
  | IndexError
  | AttributeError string
  | RuntimeError string
  | RecursionError
  | UserError string

datatype 'a outcome = Return 'a | Raise pyerr | Blocked

definition seq :: "'a outcome \<times> 's \<Rightarrow> ('a \<Rightarrow> 's \<Rightarrow> 'b outcome \<times> 's) \<Rightarrow> 'b outcome \<times> 's" where
  "seq r f = (case r of
       (Return a, s) \<Rightarrow> f a s
     | (Raise e, s) \<Rightarrow> (Raise e, s)
     | (Blocked, s) \<Rightarrow> (Blocked, s))"

datatype lock_id = StoreLock | PoolLock string nat | KeyLock string pykey

datatype event = Acquire lock_id | Release lock_id | DelLock string pykey | Invoke string

datatype locks = LockList "bool list" | LockDict "(pykey \<times> bool) list"

datatype lock_ref = ListRef nat | DictRef pykey

section \<open>CacheStore (\<open>_cache.py\<close>)\<close>

text \<open>
  Python dicts are association lists in insertion order: \<open>map_of\<close> reads, \<open>AList.update\<close> is an
  item assignment, \<open>AList.delete\<close> is \<open>del\<close>.

  \<open>pc_host\<close> is the \<open>host\<close> mapping of \<open>ProcessCache\<close> (the module's \<open>globals()\<close>, or the \<open>__dict__\<close> of
  the owner of a property) as far as the class uses it: \<open>store\<close> is \<open>host.get(STORE_NAME)\<close>, a dict
  from cache names to pairs of a cache dict and its locks; \<open>store_lock\<close> says whether the class
  attribute \<open>STORE_LOCK\<close> is held. The locks of a cache are a list of locks (a pool) or a
  \<open>defaultdict\<close> from keys to locks; of a lock the state keeps whether it is held.

  A \<open>ProcessCache\<close> object refers to the cache dict and the locks of its name in the host; the
  library never removes or replaces an entry of the store, so the object is its name and its
  \<open>n_locks\<close>, and its methods read and write the entry of that name.
\<close>

record 'v pc_host =
  store :: "(string \<times> ((pykey \<times> 'v) list \<times> locks)) list option"
  store_lock :: bool
  trace :: "event list"

record process_cache =
  pc_name :: string
  n_locks :: nat

definition cache_store :: "('v, 'm) pc_host_scheme \<Rightarrow> (string \<times> ((pykey \<times> 'v) list \<times> locks)) list" where
  "cache_store s = (case store s of Some cs \<Rightarrow> cs | None \<Rightarrow> [])"

definition the_cache :: "string \<Rightarrow> ('v, 'm) pc_host_scheme \<Rightarrow> (pykey \<times> 'v) list" where
  "the_cache name s = (case map_of (cache_store s) name of Some (c, l) \<Rightarrow> c | None \<Rightarrow> [])"

definition the_locks :: "string \<Rightarrow> ('v, 'm) pc_host_scheme \<Rightarrow> locks" where
  "the_locks name s = (case map_of (cache_store s) name of Some (c, l) \<Rightarrow> l | None \<Rightarrow> LockDict [])"

definition upd_cache ::
  "string \<Rightarrow> ((pykey \<times> 'v) list \<Rightarrow> (pykey \<times> 'v) list) \<Rightarrow> ('v, 'm) pc_host_scheme \<Rightarrow> ('v, 'm) pc_host_scheme" where
  "upd_cache name f s = s\<lparr>store := map_option (AList.map_entry name (\<lambda>(c, l). (f c, l))) (store s)\<rparr>"

definition upd_locks ::
  "string \<Rightarrow> (locks \<Rightarrow> locks) \<Rightarrow> ('v, 'm) pc_host_scheme \<Rightarrow> ('v, 'm) pc_host_scheme" where
  "upd_locks name f s = s\<lparr>store := map_option (AList.map_entry name (\<lambda>(c, l). (c, f l))) (store s)\<rparr>"

definition log :: "event \<Rightarrow> ('v, 'm) pc_host_scheme \<Rightarrow> ('v, 'm) pc_host_scheme" where
  "log e s = s\<lparr>trace := trace s @ [e]\<rparr>"

definition new_locks :: "nat \<Rightarrow> locks" where
  "new_locks n = (if replicate n False = [] then LockDict [] else LockList (replicate n False))"

definition with_STORE_LOCK ::
  "(('v, 'm) pc_host_scheme \<Rightarrow> ('v, 'm) pc_host_scheme) \<Rightarrow> ('v, 'm) pc_host_scheme
     \<Rightarrow> unit outcome \<times> ('v, 'm) pc_host_scheme" where
  "with_STORE_LOCK body s =
     (if store_lock s then (Blocked, s)
      else (Return (),
            log (Release StoreLock) ((body (log (Acquire StoreLock) (s\<lparr>store_lock := True\<rparr>)))\<lparr>store_lock := False\<rparr>)))"

definition ProcessCache_init ::
  "string \<Rightarrow> int \<Rightarrow> ('v, 'm) pc_host_scheme \<Rightarrow> process_cache outcome \<times> ('v, 'm) pc_host_scheme" where
  "ProcessCache_init name n_locks0 s =
     seq (if store s = None
          then with_STORE_LOCK (\<lambda>s. if store s = None then s\<lparr>store := Some []\<rparr> else s) s
          else (Return (), s))
       (\<lambda>_ s.
          seq (if map_of (cache_store s) name = None
               then with_STORE_LOCK
                      (\<lambda>s. if map_of (cache_store s) name = None
                           then s\<lparr>store := Some (AList.update name ([], new_locks (nat (max n_locks0 0))) (cache_store s))\<rparr>
                           else s) s
               else (Return (), s))
            (\<lambda>_ s. (Return \<lparr>pc_name = name, n_locks = nat (max n_locks0 0)\<rparr>, s)))"

text \<open>The methods of \<open>Cache\<close> on a process cache.\<close>

definition pc_getitem :: "process_cache \<Rightarrow> pykey \<Rightarrow> ('v, 'm) pc_host_scheme \<Rightarrow> 'v outcome \<times> ('v, 'm) pc_host_scheme" where
  "pc_getitem pc key s =
     (case map_of (the_cache (pc_name pc) s) key of Some v \<Rightarrow> (Return v, s) | None \<Rightarrow> (Raise (KeyError key), s))"

definition pc_setitem :: "process_cache \<Rightarrow> pykey \<Rightarrow> 'v \<Rightarrow> ('v, 'm) pc_host_scheme \<Rightarrow> ('v, 'm) pc_host_scheme" where
  "pc_setitem pc key v s = upd_cache (pc_name pc) (AList.update key v) s"

definition pc_contains :: "process_cache \<Rightarrow> pykey \<Rightarrow> ('v, 'm) pc_host_scheme \<Rightarrow> bool" where
  "pc_contains pc key s = (map_of (the_cache (pc_name pc) s) key \<noteq> None)"

definition pc_delitem :: "process_cache \<Rightarrow> pykey \<Rightarrow> ('v, 'm) pc_host_scheme \<Rightarrow> unit outcome \<times> ('v, 'm) pc_host_scheme" where
  "pc_delitem pc key s =
     (if pc_contains pc key s then (Return (), upd_cache (pc_name pc) (AList.delete key) s)
      else (Raise (KeyError key), s))"

text \<open>Indexing a Python list: a negative index counts from the end.\<close>

definition list_index :: "'a list \<Rightarrow> pykey \<Rightarrow> pyerr + nat" where
  "list_index xs key =
     (case key of
        KStr k \<Rightarrow> Inl (TypeError ''list indices must be integers or slices, not str'')
      | KInt i \<Rightarrow>
          (if 0 \<le> i \<and> i < int (length xs) then Inr (nat i)
           else if i < 0 \<and> - int (length xs) \<le> i then Inr (nat (i + int (length xs)))
           else Inl IndexError))"

text \<open>\<open>self.locks[hash(key) % self.n_locks if self.n_locks else key]\<close>; a \<open>defaultdict\<close> makes
  the missing entry, a free lock.\<close>

definition locks_getitem :: "(pykey \<Rightarrow> int) \<Rightarrow> nat \<Rightarrow> pykey \<Rightarrow> locks \<Rightarrow> (pyerr + lock_ref) \<times> locks" where
  "locks_getitem kh n key l =
     (let idx = (if n \<noteq> 0 then KInt (kh key mod int n) else key) in
      case l of
        LockList ls \<Rightarrow> (case list_index ls idx of Inl e \<Rightarrow> (Inl e, l) | Inr i \<Rightarrow> (Inr (ListRef i), l))
      | LockDict m \<Rightarrow>
          (Inr (DictRef idx), if map_of m idx = None then LockDict (m @ [(idx, False)]) else l))"

fun held :: "lock_ref \<Rightarrow> locks \<Rightarrow> bool" where
  "held (ListRef i) (LockList ls) = (i < length ls \<and> ls ! i)"
| "held (DictRef k) (LockDict m) = (map_of m k = Some True)"
| "held r l = False"

fun set_held :: "lock_ref \<Rightarrow> bool \<Rightarrow> locks \<Rightarrow> locks" where
  "set_held (ListRef i) b (LockList ls) = LockList (ls[i := b])"
| "set_held (DictRef k) b (LockDict m) = LockDict (AList.map_entry k (\<lambda>_. b) m)"
| "set_held r b l = l"

fun lock_name :: "string \<Rightarrow> lock_ref \<Rightarrow> lock_id" where
  "lock_name name (ListRef i) = PoolLock name i"
| "lock_name name (DictRef k) = KeyLock name k"

text \<open>\<open>del self.locks[key]\<close>.\<close>

definition locks_delitem :: "pykey \<Rightarrow> locks \<Rightarrow> pyerr + locks" where
  "locks_delitem key l =
     (case l of
        LockDict m \<Rightarrow> (if map_of m key = None then Inl (KeyError key) else Inr (LockDict (AList.delete key m)))
      | LockList ls \<Rightarrow>
          (case list_index ls key of Inl e \<Rightarrow> Inl e | Inr i \<Rightarrow> Inr (LockList (take i ls @ drop (Suc i) ls))))"

text \<open>The \<open>with self.locks[...]: yield\<close> of \<open>ProcessCache.lock\<close>: look the lock up, wait for it,
  run the body, release the lock, also when the body raises.\<close>

definition with_lock ::
  "(pykey \<Rightarrow> int) \<Rightarrow> process_cache \<Rightarrow> pykey \<Rightarrow> (('v, 'm) pc_host_scheme \<Rightarrow> 'a outcome \<times> ('v, 'm) pc_host_scheme)
     \<Rightarrow> ('v, 'm) pc_host_scheme \<Rightarrow> 'a outcome \<times> ('v, 'm) pc_host_scheme" where
  "with_lock kh pc key body s =
     (case locks_getitem kh (n_locks pc) key (the_locks (pc_name pc) s) of
        (Inl e, l) \<Rightarrow> (Raise e, upd_locks (pc_name pc) (\<lambda>_. l) s)
      | (Inr r, l) \<Rightarrow>
          (if held r l then (Blocked, upd_locks (pc_name pc) (\<lambda>_. l) s)
           else (case body (log (Acquire (lock_name (pc_name pc) r))
                              (upd_locks (pc_name pc) (\<lambda>_. set_held r True l) s)) of
                   (Blocked, s') \<Rightarrow> (Blocked, s')
                 | (res, s') \<Rightarrow>
                     (res, log (Release (lock_name (pc_name pc) r))
                             (upd_locks (pc_name pc) (set_held r False) s')))))"

text \<open>The \<open>finally\<close> clause of \<open>ProcessCache.lock\<close>; an exception raised in it replaces the
  outcome of the \<open>try\<close> block.\<close>

definition lock_finally ::
  "process_cache \<Rightarrow> pykey \<Rightarrow> 'a outcome \<times> ('v, 'm) pc_host_scheme \<Rightarrow> 'a outcome \<times> ('v, 'm) pc_host_scheme" where
  "lock_finally pc key r =
     (case r of
        (Blocked, s) \<Rightarrow> (Blocked, s)
      | (res, s) \<Rightarrow>
          (if n_locks pc = 0 \<and> \<not> pc_contains pc key s
           then (case locks_delitem key (the_locks (pc_name pc) s) of
                   Inl e \<Rightarrow> (Raise e, s)
                 | Inr l \<Rightarrow> (res, log (DelLock (pc_name pc) key) (upd_locks (pc_name pc) (\<lambda>_. l) s)))
           else (res, s)))"

definition ProcessCache_lock ::
  "(pykey \<Rightarrow> int) \<Rightarrow> process_cache \<Rightarrow> pykey \<Rightarrow> (('v, 'm) pc_host_scheme \<Rightarrow> 'a outcome \<times> ('v, 'm) pc_host_scheme)
     \<Rightarrow> ('v, 'm) pc_host_scheme \<Rightarrow> 'a outcome \<times> ('v, 'm) pc_host_scheme" where
  "ProcessCache_lock kh pc key body s = lock_finally pc key (with_lock kh pc key body s)"


text \<open>\<open>ThreadCache\<close>: the store is the \<open>__dict__\<close> of a \<open>threading.local\<close>, one dict of named caches
  for each thread; \<open>lock\<close> is the one of \<open>Cache\<close>, which only yields.\<close>

record ('v, 'w) memo_state = "'v pc_host" +
  tstore :: "(nat \<times> (string \<times> (pykey \<times> 'v) list) list) list"
  world :: 'w

datatype cache_obj = ThreadCache nat string | ProcessCache process_cache

definition thread_local :: "nat \<Rightarrow> ('v, 'w, 'm) memo_state_scheme \<Rightarrow> (string \<times> (pykey \<times> 'v) list) list" where
  "thread_local tid s = (case map_of (tstore s) tid of Some d \<Rightarrow> d | None \<Rightarrow> [])"

definition thread_cache :: "nat \<Rightarrow> string \<Rightarrow> ('v, 'w, 'm) memo_state_scheme \<Rightarrow> (pykey \<times> 'v) list" where
  "thread_cache tid name s = (case map_of (thread_local tid s) name of Some c \<Rightarrow> c | None \<Rightarrow> [])"

definition ThreadCache_init ::
  "nat \<Rightarrow> string \<Rightarrow> ('v, 'w, 'm) memo_state_scheme \<Rightarrow> cache_obj outcome \<times> ('v, 'w, 'm) memo_state_scheme" where
  "ThreadCache_init tid name s =
     (Return (ThreadCache tid name),
      if map_of (thread_local tid s) name = None
      then s\<lparr>tstore := AList.update tid (AList.update name [] (thread_local tid s)) (tstore s)\<rparr>
      else s)"

definition Cache_contains :: "cache_obj \<Rightarrow> pykey \<Rightarrow> ('v, 'w, 'm) memo_state_scheme \<Rightarrow> bool" where
  "Cache_contains cache key s =
     (case cache of
        ThreadCache tid name \<Rightarrow> map_of (thread_cache tid name s) key \<noteq> None
      | ProcessCache pc \<Rightarrow> pc_contains pc key s)"

definition Cache_getitem ::
  "cache_obj \<Rightarrow> pykey \<Rightarrow> ('v, 'w, 'm) memo_state_scheme \<Rightarrow> 'v outcome \<times> ('v, 'w, 'm) memo_state_scheme" where
  "Cache_getitem cache key s =
     (case cache of
        ThreadCache tid name \<Rightarrow>
          (case map_of (thread_cache tid name s) key of
             Some v \<Rightarrow> (Return v, s)
           | None \<Rightarrow> (Raise (KeyError key), s))
      | ProcessCache pc \<Rightarrow> pc_getitem pc key s)"

definition Cache_setitem ::
  "cache_obj \<Rightarrow> pykey \<Rightarrow> 'v \<Rightarrow> ('v, 'w, 'm) memo_state_scheme \<Rightarrow> ('v, 'w, 'm) memo_state_scheme" where
  "Cache_setitem cache key v s =
     (case cache of
        ThreadCache tid name \<Rightarrow>
          s\<lparr>tstore := AList.map_entry tid (AList.map_entry name (AList.update key v)) (tstore s)\<rparr>
      | ProcessCache pc \<Rightarrow> pc_setitem pc key v s)"

definition Cache_lock ::
  "(pykey \<Rightarrow> int) \<Rightarrow> cache_obj \<Rightarrow> pykey
     \<Rightarrow> (('v, 'w, 'm) memo_state_scheme \<Rightarrow> 'a outcome \<times> ('v, 'w, 'm) memo_state_scheme)
     \<Rightarrow> ('v, 'w, 'm) memo_state_scheme \<Rightarrow> 'a outcome \<times> ('v, 'w, 'm) memo_state_scheme" where
  "Cache_lock kh cache key body s =
     (case cache of
        ThreadCache tid name \<Rightarrow> body s
      | ProcessCache pc \<Rightarrow> ProcessCache_lock kh pc key body s)"

section \<open>MemoizedInvocation (\<open>cached.py\<close>)\<close>

text \<open>
  The arguments of a call are the positional and the keyword arguments. A callable is its
  \<open>__name__\<close>, what \<open>inspect.signature(f).bind(*args, **kwargs).arguments\<close> is for it (the parameter
  names with the arguments bound to them, or the \<open>TypeError\<close> of \<open>bind\<close>), and what a call does:
  it returns a value or raises, and changes the world outside the caches. A callable that itself
  reads or writes the caches of the library is outside this model.

  \<open>h\<close> is Python's \<open>hash\<close> on the pairs \<open>_hash_content\<close> builds, \<open>kh\<close> is \<open>hash\<close> on cache keys, \<open>tid\<close> is
  the calling thread.
\<close>

type_synonym args = "pyval list \<times> (string \<times> pyval) list"

type_synonym sig_bind = "args \<Rightarrow> pyerr + (pykey \<times> pyval) list"

record 'w callable =
  cname :: string
  bind :: sig_bind
  run :: "args \<Rightarrow> 'w \<Rightarrow> (pyerr + pyval) \<times> 'w"

definition invoke ::
  "'w callable \<Rightarrow> args \<Rightarrow> (pyval, 'w, 'm) memo_state_scheme \<Rightarrow> pyval outcome \<times> (pyval, 'w, 'm) memo_state_scheme" where
  "invoke f a s =
     (case run f a (world s) of
        (Inl e, w) \<Rightarrow> (Raise e, log (Invoke (cname f)) (s\<lparr>world := w\<rparr>))
      | (Inr v, w) \<Rightarrow> (Return v, log (Invoke (cname f)) (s\<lparr>world := w\<rparr>)))"

definition cached_call_impl ::
  "(canon \<times> string \<Rightarrow> int) \<Rightarrow> (pykey \<Rightarrow> int) \<Rightarrow> nat \<Rightarrow> string \<Rightarrow> string \<Rightarrow> 'w callable \<Rightarrow> sig_bind option \<Rightarrow> args
     \<Rightarrow> (pyval, 'w, 'm) memo_state_scheme \<Rightarrow> pyval outcome \<times> (pyval, 'w, 'm) memo_state_scheme" where
  "cached_call_impl h kh tid scope name callfunc init_method a s =
     (if scope \<noteq> ''thread'' \<and> scope \<noteq> ''process''
      then (Raise (ValueError (''Invalid scope '' @ [CHR 0x27] @ scope @ [CHR 0x27])), s)
      else
        (case (case init_method of
                 None \<Rightarrow> bind callfunc a
               | Some b \<Rightarrow> b (py_none # fst a, snd a)) of
           Inl e \<Rightarrow> (Raise e, s)
         | Inr arguments \<Rightarrow>
             seq (if scope = ''thread'' then ThreadCache_init tid name s
                  else seq (ProcessCache_init name 100 s) (\<lambda>pc s. (Return (ProcessCache pc), s)))
               (\<lambda>cache s.
                  seq (if \<not> Cache_contains cache (KInt (hash_content h (py_dict arguments))) s
                       then Cache_lock kh cache (KInt (hash_content h (py_dict arguments)))
                              (\<lambda>s. if \<not> Cache_contains cache (KInt (hash_content h (py_dict arguments))) s
                                   then seq (invoke callfunc a s)
                                          (\<lambda>v s. (Return (),
                                             Cache_setitem cache (KInt (hash_content h (py_dict arguments))) v s))
                                   else (Return (), s)) s
                       else (Return (), s))
                    (\<lambda>_ s. Cache_getitem cache (KInt (hash_content h (py_dict arguments))) s))))"

definition cached_call ::
  "(canon \<times> string \<Rightarrow> int) \<Rightarrow> (pykey \<Rightarrow> int) \<Rightarrow> nat \<Rightarrow> 'w callable \<Rightarrow> args \<Rightarrow> string \<Rightarrow> string option
     \<Rightarrow> (pyval, 'w, 'm) memo_state_scheme \<Rightarrow> pyval outcome \<times> (pyval, 'w, 'm) memo_state_scheme" where
  "cached_call h kh tid callable_obj a scope cache_name s =
     cached_call_impl h kh tid scope
       (case cache_name of None \<Rightarrow> cname callable_obj | Some n \<Rightarrow> if n = [] then cname callable_obj else n)
       callable_obj None a s"

text \<open>\<open>Cached.__call__\<close>: the class is its name, its \<open>_cache_scope\<close>, \<open>type.__call__\<close> on it, and the
  binding of the signature of its \<open>__init__\<close>.\<close>

record 'w cached_class =
  cls_name :: string
  cache_scope :: string
  construct :: "'w callable"
  init_bind :: sig_bind

definition Cached_call ::
  "(canon \<times> string \<Rightarrow> int) \<Rightarrow> (pykey \<Rightarrow> int) \<Rightarrow> nat \<Rightarrow> 'w cached_class \<Rightarrow> args
     \<Rightarrow> (pyval, 'w, 'm) memo_state_scheme \<Rightarrow> pyval outcome \<times> (pyval, 'w, 'm) memo_state_scheme" where
  "Cached_call h kh tid cls a s =
     cached_call_impl h kh tid (cache_scope cls) (cls_name cls) (construct cls) (Some (init_bind cls)) a s"

section \<open>DependencyTrackedProperty (\<open>property.py\<close>)\<close>

text \<open>
  The values of attributes and properties are references to Python objects: \<open>PyNone\<close> is the
  object \<open>None\<close>, \<open>Ref r\<close> any other object, and HOL's equality on references is Python's \<open>is\<close>.
  What a reference refers to is part of the world outside (\<open>env\<close>), which only the functions of
  the properties change. Python's \<open>==\<close> on two tuples of references, in a world, is the
  parameter \<open>tuple_eq\<close> of the operations that compare snapshots: it gives a truth value or
  raises what the \<open>__eq__\<close> of an element raises, and it is taken to leave the state as it is.
  For tuples \<open>a != b\<close> is \<open>not a == b\<close>, and a tuple is not equal to \<open>None\<close>.

  The owner of a property is its \<open>__dict__\<close>: the store of the property caches (the \<open>host\<close> of its
  \<open>ProcessCache\<close>) and its other attributes. The state also has the files that \<open>pload\<close> and \<open>pdump\<close>
  (of \<open>epic.common.io\<close>) read and write, a file being the pickled (snapshot, value) pair.

  Reading an attribute of the owner (\<open>getattr(owner, x)\<close>, or \<open>self.x\<close> in the function of a
  property) is a parameter of the operations, of type \<open>getter\<close>: it may run the \<open>__get__\<close> of
  another descriptor of the class, so it returns or raises or waits, and changes the state.
  \<open>getattr\<close> below is that reading for a class whose descriptors are properties of this
  library.

  The function of a property is its \<open>__name__\<close> and what a call does, given how attributes are
  read, from the state it is called in.

  \<open>self.dependencies\<close> is a \<open>frozenset\<close>: it is kept as the list of its elements in its iteration
  order. That order is the parameter \<open>fz\<close>, which takes the declared names to the iteration
  order of the frozenset made of them (a list of the same names, without repetition).

  The three classes share their methods up to \<open>get_cache\<close> (pickled) and \<open>__get__\<close> (lazy):
  \<open>property_class\<close> says which class a descriptor is an instance of, with the file name template
  of a pickled property. \<open>__get__\<close> is modelled for an owner that is not \<open>None\<close>.
\<close>

datatype 'r ref = PyNone | Ref 'r

type_synonym 'r slot = "'r ref list \<times> 'r ref"

record ('r, 'w) owner = "'r slot pc_host" +
  attrs :: "(string \<times> 'r ref) list"
  files :: "(string \<times> 'r slot) list"
  env :: 'w

type_synonym ('r, 'w) getter = "string \<Rightarrow> ('r, 'w) owner \<Rightarrow> 'r ref outcome \<times> ('r, 'w) owner"

record ('r, 'w) pfunction =
  function_name :: string
  function_body :: "('r, 'w) getter \<Rightarrow> ('r, 'w) owner \<Rightarrow> 'r ref outcome \<times> ('r, 'w) owner"

datatype ('r, 'w) method_or_dependency = Dependency string | Method "('r, 'w) pfunction" | NoMethod

datatype property_class = CachedProperty | PickledCachedProperty string | LazyProperty

record ('r, 'w) cached_property =
  the_function :: "('r, 'w) pfunction option"
  dependencies :: "string list"
  property_class :: property_class

definition cached_property_init ::
  "(string list \<Rightarrow> string list) \<Rightarrow> ('r, 'w) method_or_dependency \<Rightarrow> string list \<Rightarrow> ('r, 'w) cached_property" where
  "cached_property_init fz method_or_dependency deps =
     (case method_or_dependency of
        Dependency d \<Rightarrow> \<lparr>the_function = None, dependencies = fz (d # deps), property_class = CachedProperty\<rparr>
      | Method f \<Rightarrow> \<lparr>the_function = Some f, dependencies = fz deps, property_class = CachedProperty\<rparr>
      | NoMethod \<Rightarrow> \<lparr>the_function = None, dependencies = fz deps, property_class = CachedProperty\<rparr>)"

definition decorate :: "('r, 'w) cached_property \<Rightarrow> ('r, 'w) pfunction \<Rightarrow> ('r, 'w) cached_property" where
  "decorate p f = p\<lparr>the_function := Some f\<rparr>"

definition pickled_cached_property_init ::
  "(string list \<Rightarrow> string list) \<Rightarrow> string list \<Rightarrow> string \<Rightarrow> ('r, 'w) cached_property" where
  "pickled_cached_property_init fz deps filename =
     (case deps of
        [] \<Rightarrow> cached_property_init fz NoMethod []
      | d # ds \<Rightarrow> cached_property_init fz (Dependency d) ds)\<lparr>property_class := PickledCachedProperty filename\<rparr>"

definition lazy_property_init ::
  "(string list \<Rightarrow> string list) \<Rightarrow> ('r, 'w) method_or_dependency \<Rightarrow> string list \<Rightarrow> ('r, 'w) cached_property" where
  "lazy_property_init fz method_or_dependency deps =
     (cached_property_init fz method_or_dependency deps)\<lparr>property_class := LazyProperty\<rparr>"

definition property_name :: "('r, 'w) cached_property \<Rightarrow> pyerr + string" where
  "property_name p = (case the_function p of
       None \<Rightarrow> Inl (AttributeError ''__name__'')
     | Some f \<Rightarrow> Inr (function_name f))"

text \<open>\<open>tuple(getattr(owner, x) for x in self.dependencies)\<close>: the reads happen in order, and the first
  one that raises ends the tuple.\<close>

fun read_all :: "('r, 'w) getter \<Rightarrow> string list \<Rightarrow> ('r, 'w) owner \<Rightarrow> 'r ref list outcome \<times> ('r, 'w) owner" where
  "read_all ga [] s = (Return [], s)"
| "read_all ga (x # xs) s =
     seq (ga x s) (\<lambda>v s. seq (read_all ga xs s) (\<lambda>vs s. (Return (v # vs), s)))"

definition dependency_values ::
  "('r, 'w) getter \<Rightarrow> ('r, 'w) cached_property \<Rightarrow> ('r, 'w) owner \<Rightarrow> 'r ref list outcome \<times> ('r, 'w) owner" where
  "dependency_values ga p s = read_all ga (dependencies p) s"

text \<open>
  \<open>_OwnedCache\<close> and \<open>_OwnedPicklerCache\<close>: \<open>oc_parent\<close> is \<open>None\<close> for the first, and for the second
  the file name template and the dependencies of the property, from which \<open>get_filename\<close> makes
  the file name with \<open>str.format\<close> (the parameter \<open>fmt\<close>). \<open>os.path.exists\<close> is \<open>map_of (files s) path \<noteq> None\<close>.
\<close>

record owned_cache =
  oc_cache :: process_cache
  oc_key :: pykey
  oc_parent :: "(string \<times> string list) option"

definition get_cache ::
  "('r, 'w) cached_property \<Rightarrow> ('r, 'w) owner \<Rightarrow> owned_cache outcome \<times> ('r, 'w) owner" where
  "get_cache p s =
     (case property_name p of
        Inl e \<Rightarrow> (Raise e, s)
      | Inr n \<Rightarrow>
          seq (ProcessCache_init ''property_cache'' 0 s)
            (\<lambda>pc s. (Return \<lparr>oc_cache = pc, oc_key = KStr n,
                               oc_parent = (case property_class p of
                                              PickledCachedProperty filename \<Rightarrow> Some (filename, dependencies p)
                                            | _ \<Rightarrow> None)\<rparr>, s)))"

definition get_filename ::
  "(string \<Rightarrow> (string \<times> 'r ref) list \<Rightarrow> pyerr + string) \<Rightarrow> ('r, 'w) getter \<Rightarrow> string \<Rightarrow> string list
     \<Rightarrow> ('r, 'w) owner \<Rightarrow> string outcome \<times> ('r, 'w) owner" where
  "get_filename fmt ga filename deps s =
     seq (read_all ga deps s)
       (\<lambda>vs s. case fmt filename (zip deps vs) of
                 Inl e \<Rightarrow> (Raise e, s)
               | Inr path \<Rightarrow> (Return path, s))"

definition owned_full ::
  "(string \<Rightarrow> (string \<times> 'r ref) list \<Rightarrow> pyerr + string) \<Rightarrow> ('r, 'w) getter \<Rightarrow> owned_cache
     \<Rightarrow> ('r, 'w) owner \<Rightarrow> bool outcome \<times> ('r, 'w) owner" where
  "owned_full fmt ga c s =
     (case oc_parent c of
        None \<Rightarrow> (Return (pc_contains (oc_cache c) (oc_key c) s), s)
      | Some (filename, deps) \<Rightarrow>
          if pc_contains (oc_cache c) (oc_key c) s then (Return True, s)
          else seq (get_filename fmt ga filename deps s)
                 (\<lambda>path s. (Return (map_of (files s) path \<noteq> None), s)))"

definition owned_retrieve ::
  "(string \<Rightarrow> (string \<times> 'r ref) list \<Rightarrow> pyerr + string) \<Rightarrow> ('r, 'w) getter \<Rightarrow> owned_cache
     \<Rightarrow> ('r, 'w) owner \<Rightarrow> 'r slot outcome \<times> ('r, 'w) owner" where
  "owned_retrieve fmt ga c s =
     (case oc_parent c of
        None \<Rightarrow> pc_getitem (oc_cache c) (oc_key c) s
      | Some (filename, deps) \<Rightarrow>
          if pc_contains (oc_cache c) (oc_key c) s then pc_getitem (oc_cache c) (oc_key c) s
          else seq (get_filename fmt ga filename deps s)
                 (\<lambda>path s. case map_of (files s) path of
                              Some item \<Rightarrow> (Return item, pc_setitem (oc_cache c) (oc_key c) item s)
                            | None \<Rightarrow> (Raise (KeyError (oc_key c)), s)))"

definition owned_insert ::
  "(string \<Rightarrow> (string \<times> 'r ref) list \<Rightarrow> pyerr + string) \<Rightarrow> ('r, 'w) getter \<Rightarrow> owned_cache \<Rightarrow> 'r slot
     \<Rightarrow> ('r, 'w) owner \<Rightarrow> unit outcome \<times> ('r, 'w) owner" where
  "owned_insert fmt ga c item s =
     (case oc_parent c of
        None \<Rightarrow> (Return (), pc_setitem (oc_cache c) (oc_key c) item s)
      | Some (filename, deps) \<Rightarrow>
          seq (get_filename fmt ga filename deps (pc_setitem (oc_cache c) (oc_key c) item s))
            (\<lambda>path s. (Return (), s\<lparr>files := AList.update path item (files s)\<rparr>)))"

definition base_clear :: "owned_cache \<Rightarrow> ('r, 'w) owner \<Rightarrow> unit outcome \<times> ('r, 'w) owner" where
  "base_clear c s =
     (if pc_contains (oc_cache c) (oc_key c) s then pc_delitem (oc_cache c) (oc_key c) s
      else (Return (), s))"

definition owned_clear ::
  "(string \<Rightarrow> (string \<times> 'r ref) list \<Rightarrow> pyerr + string) \<Rightarrow> ('r, 'w) getter \<Rightarrow> owned_cache
     \<Rightarrow> ('r, 'w) owner \<Rightarrow> unit outcome \<times> ('r, 'w) owner" where
  "owned_clear fmt ga c s =
     (case oc_parent c of
        None \<Rightarrow> base_clear c s
      | Some (filename, deps) \<Rightarrow>
          seq (get_filename fmt ga filename deps s)
            (\<lambda>path s. base_clear c (if map_of (files s) path \<noteq> None
                                      then s\<lparr>files := AList.delete path (files s)\<rparr> else s)))"

definition owned_lock ::
  "(pykey \<Rightarrow> int) \<Rightarrow> owned_cache \<Rightarrow> (('r, 'w) owner \<Rightarrow> 'a outcome \<times> ('r, 'w) owner)
     \<Rightarrow> ('r, 'w) owner \<Rightarrow> 'a outcome \<times> ('r, 'w) owner" where
  "owned_lock kh c body s = ProcessCache_lock kh (oc_cache c) (oc_key c) body s"

text \<open>\<open>self.function(owner)\<close>; the trace records the invocation before the function runs.\<close>

definition call_function ::
  "('r, 'w) getter \<Rightarrow> ('r, 'w) cached_property \<Rightarrow> ('r, 'w) owner \<Rightarrow> 'r ref outcome \<times> ('r, 'w) owner" where
  "call_function ga p s =
     (case the_function p of
        None \<Rightarrow> (Raise (TypeError ''NoneType object is not callable''), s)
      | Some f \<Rightarrow> function_body f ga (log (Invoke (function_name f)) s))"

definition tuple_ne ::
  "('w \<Rightarrow> 'r ref list \<Rightarrow> 'r ref list \<Rightarrow> pyerr + bool) \<Rightarrow> 'w \<Rightarrow> 'r ref list \<Rightarrow> 'r ref list option
     \<Rightarrow> pyerr + bool" where
  "tuple_ne tuple_eq w dep_values cached_dep_values =
     (case cached_dep_values of
        None \<Rightarrow> Inr True
      | Some cd \<Rightarrow> (case tuple_eq w dep_values cd of Inl e \<Rightarrow> Inl e | Inr b \<Rightarrow> Inr (\<not> b)))"

definition cached_property_get ::
  "(pykey \<Rightarrow> int) \<Rightarrow> (string \<Rightarrow> (string \<times> 'r ref) list \<Rightarrow> pyerr + string)
     \<Rightarrow> ('w \<Rightarrow> 'r ref list \<Rightarrow> 'r ref list \<Rightarrow> pyerr + bool) \<Rightarrow> ('r, 'w) getter \<Rightarrow> ('r, 'w) cached_property
     \<Rightarrow> ('r, 'w) owner \<Rightarrow> 'r ref outcome \<times> ('r, 'w) owner" where
  "cached_property_get kh fmt tuple_eq ga p s =
     seq (dependency_values ga p s)
       (\<lambda>dep_values s.
          seq (get_cache p s)
            (\<lambda>cache s.
               owned_lock kh cache
                 (\<lambda>s. seq (owned_full fmt ga cache s)
                    (\<lambda>is_full s.
                       seq (if is_full
                            then seq (owned_retrieve fmt ga cache s)
                                   (\<lambda>item s. (Return (Some (fst item), snd item), s))
                            else (Return (None, PyNone), s))
                         (\<lambda>(cached_dep_values, result) s.
                            case tuple_ne tuple_eq (env s) dep_values cached_dep_values of
                              Inl e \<Rightarrow> (Raise e, s)
                            | Inr True \<Rightarrow>
                                seq (call_function ga p s)
                                  (\<lambda>result s.
                                     seq (owned_insert fmt ga cache (dep_values, result) s)
                                       (\<lambda>_ s. (Return result, s)))
                            | Inr False \<Rightarrow> (Return result, s)))) s))"

definition cached_property_set ::
  "(pykey \<Rightarrow> int) \<Rightarrow> (string \<Rightarrow> (string \<times> 'r ref) list \<Rightarrow> pyerr + string)
     \<Rightarrow> ('r, 'w) getter \<Rightarrow> ('r, 'w) cached_property \<Rightarrow> 'r ref
     \<Rightarrow> ('r, 'w) owner \<Rightarrow> unit outcome \<times> ('r, 'w) owner" where
  "cached_property_set kh fmt ga p v s =
     seq (get_cache p s)
       (\<lambda>cache s.
          owned_lock kh cache
            (\<lambda>s. seq (dependency_values ga p s)
                    (\<lambda>dep_values s. owned_insert fmt ga cache (dep_values, v) s)) s)"

definition cached_property_delete ::
  "(pykey \<Rightarrow> int) \<Rightarrow> (string \<Rightarrow> (string \<times> 'r ref) list \<Rightarrow> pyerr + string)
     \<Rightarrow> ('r, 'w) getter \<Rightarrow> ('r, 'w) cached_property
     \<Rightarrow> ('r, 'w) owner \<Rightarrow> unit outcome \<times> ('r, 'w) owner" where
  "cached_property_delete kh fmt ga p s =
     seq (get_cache p s)
       (\<lambda>cache s.
          seq (owned_full fmt ga cache s)
            (\<lambda>is_full s.
               if is_full then owned_lock kh cache (\<lambda>s. owned_clear fmt ga cache s) s
               else (Return (), s)))"


text \<open>
  \<open>lazy_property.__get__\<close>. \<open>getattr(owner, member, None)\<close> gives \<open>None\<close> for an \<open>AttributeError\<close>; any
  other exception of the read goes to the caller.
\<close>

fun lazy_dependencies ::
  "('r, 'w) getter \<Rightarrow> string list \<Rightarrow> ('r, 'w) owner \<Rightarrow> bool outcome \<times> ('r, 'w) owner" where
  "lazy_dependencies ga [] s = (Return False, s)"
| "lazy_dependencies ga (member # members) s =
     (case ga member s of
        (Return v, s') \<Rightarrow> if v = PyNone then (Return True, s') else lazy_dependencies ga members s'
      | (Raise (AttributeError n), s') \<Rightarrow> (Return True, s')
      | (Raise e, s') \<Rightarrow> (Raise e, s')
      | (Blocked, s') \<Rightarrow> (Blocked, s'))"

definition lazy_property_get ::
  "(pykey \<Rightarrow> int) \<Rightarrow> (string \<Rightarrow> (string \<times> 'r ref) list \<Rightarrow> pyerr + string)
     \<Rightarrow> ('w \<Rightarrow> 'r ref list \<Rightarrow> 'r ref list \<Rightarrow> pyerr + bool) \<Rightarrow> ('r, 'w) getter \<Rightarrow> ('r, 'w) cached_property
     \<Rightarrow> ('r, 'w) owner \<Rightarrow> 'r ref outcome \<times> ('r, 'w) owner" where
  "lazy_property_get kh fmt tuple_eq ga p s =
     seq (lazy_dependencies ga (dependencies p) s)
       (\<lambda>some_is_None s.
          if some_is_None then (Return PyNone, s)
          else cached_property_get kh fmt tuple_eq ga p s)"

text \<open>Attribute access on an instance runs the \<open>__get__\<close> of the class of the descriptor.\<close>

definition property_get ::
  "(pykey \<Rightarrow> int) \<Rightarrow> (string \<Rightarrow> (string \<times> 'r ref) list \<Rightarrow> pyerr + string)
     \<Rightarrow> ('w \<Rightarrow> 'r ref list \<Rightarrow> 'r ref list \<Rightarrow> pyerr + bool) \<Rightarrow> ('r, 'w) getter \<Rightarrow> ('r, 'w) cached_property
     \<Rightarrow> ('r, 'w) owner \<Rightarrow> 'r ref outcome \<times> ('r, 'w) owner" where
  "property_get kh fmt tuple_eq ga p s =
     (case property_class p of
        LazyProperty \<Rightarrow> lazy_property_get kh fmt tuple_eq ga p s
      | _ \<Rightarrow> cached_property_get kh fmt tuple_eq ga p s)"

text \<open>
  \<open>getattr(owner, x)\<close> for an owner whose class has the attributes \<open>cls\<close>, each a property of this
  library or a plain value. A property is a data descriptor (it has \<open>__set__\<close>), so it comes
  before the \<open>__dict__\<close> of the instance, which comes before the plain attributes of the class.
  The first argument bounds the depth of the calls, as Python's recursion limit does:
  beyond it the read raises \<open>RecursionError\<close>.
\<close>

datatype ('r, 'w) class_attr = Descriptor "('r, 'w) cached_property" | ClassAttr "'r ref"

primrec getattr ::
  "nat \<Rightarrow> (pykey \<Rightarrow> int) \<Rightarrow> (string \<Rightarrow> (string \<times> 'r ref) list \<Rightarrow> pyerr + string)
     \<Rightarrow> ('w \<Rightarrow> 'r ref list \<Rightarrow> 'r ref list \<Rightarrow> pyerr + bool) \<Rightarrow> (string \<times> ('r, 'w) class_attr) list
     \<Rightarrow> ('r, 'w) getter" where
  "getattr 0 kh fmt tuple_eq cls = (\<lambda>x s. (Raise RecursionError, s))"
| "getattr (Suc depth) kh fmt tuple_eq cls =
     (\<lambda>x s. case map_of cls x of
              Some (Descriptor p) \<Rightarrow> property_get kh fmt tuple_eq (getattr depth kh fmt tuple_eq cls) p s
            | Some (ClassAttr v) \<Rightarrow>
                (case map_of (attrs s) x of Some u \<Rightarrow> (Return u, s) | None \<Rightarrow> (Return v, s))
            | None \<Rightarrow>
                (case map_of (attrs s) x of
                   Some u \<Rightarrow> (Return u, s)
                 | None \<Rightarrow> (Raise (AttributeError x), s)))"

section \<open>Threads in \<open>ProcessCache.lock\<close>\<close>

text \<open>
  Several threads in \<open>with cache.lock(key): body\<close> on one process cache with per-key locks
  (\<open>n_locks = 0\<close>), one step of one thread at a time. The lock map takes a key to a lock object;
  the lock objects are numbered as \<open>defaultdict\<close> makes them, and \<open>held_locks\<close> are those that some
  thread holds. A thread is its place in \<open>ProcessCache.lock\<close>, its key, the lock object that
  \<open>self.locks[key]\<close> gave it, and what its critical section does to the cache:

    \<^item> \<open>AtLookup\<close>: \<open>self.locks[key]\<close>, which makes a new lock when the key has none;
    \<^item> \<open>AtAcquire\<close>: \<open>__enter__\<close> of the lock; the thread waits while the lock is held;
    \<^item> \<open>Inside\<close>: the critical section (the \<open>yield\<close>);
    \<^item> \<open>AtRelease\<close>: \<open>__exit__\<close> of the lock;
    \<^item> \<open>AtFinally\<close>: \<open>if not self.n_locks and key not in self.cache: del self.locks[key]\<close>;
    \<^item> \<open>Left\<close>: the \<open>with\<close> statement of the caller is over; \<open>Failed e\<close>: it raised \<open>e\<close>.
\<close>

datatype place = AtLookup | AtAcquire | Inside | AtRelease | AtFinally | Left | Failed pyerr

record 'v thread =
  at :: place
  thread_key :: pykey
  my_lock :: "nat option"
  critical_section :: "(pykey \<times> 'v) list \<Rightarrow> (pykey \<times> 'v) list"

record 'v shared =
  shared_cache :: "(pykey \<times> 'v) list"
  lock_map :: "(pykey \<times> nat) list"
  locks_made :: nat
  held_locks :: "nat list"
  threads :: "'v thread list"

definition thread_step :: "'v thread \<Rightarrow> 'v shared \<Rightarrow> 'v thread \<times> 'v shared" where
  "thread_step t s =
     (case at t of
        AtLookup \<Rightarrow>
          (case map_of (lock_map s) (thread_key t) of
             Some l \<Rightarrow> (t\<lparr>at := AtAcquire, my_lock := Some l\<rparr>, s)
           | None \<Rightarrow>
               (t\<lparr>at := AtAcquire, my_lock := Some (locks_made s)\<rparr>,
                s\<lparr>lock_map := lock_map s @ [(thread_key t, locks_made s)], locks_made := Suc (locks_made s)\<rparr>))
      | AtAcquire \<Rightarrow>
          (case my_lock t of
             Some l \<Rightarrow> if l \<in> set (held_locks s) then (t, s)
                       else (t\<lparr>at := Inside\<rparr>, s\<lparr>held_locks := l # held_locks s\<rparr>)
           | None \<Rightarrow> (t, s))
      | Inside \<Rightarrow> (t\<lparr>at := AtRelease\<rparr>, s\<lparr>shared_cache := critical_section t (shared_cache s)\<rparr>)
      | AtRelease \<Rightarrow>
          (case my_lock t of
             Some l \<Rightarrow> (t\<lparr>at := AtFinally\<rparr>, s\<lparr>held_locks := removeAll l (held_locks s)\<rparr>)
           | None \<Rightarrow> (t, s))
      | AtFinally \<Rightarrow>
          (if map_of (shared_cache s) (thread_key t) = None
           then (if map_of (lock_map s) (thread_key t) = None
                 then (t\<lparr>at := Failed (KeyError (thread_key t))\<rparr>, s)
                 else (t\<lparr>at := Left\<rparr>, s\<lparr>lock_map := AList.delete (thread_key t) (lock_map s)\<rparr>))
           else (t\<lparr>at := Left\<rparr>, s))
      | Left \<Rightarrow> (t, s)
      | Failed e \<Rightarrow> (t, s))"

text \<open>A step of the thread \<open>i\<close>, and a run under a schedule, the list of the threads that step.\<close>

definition step :: "nat \<Rightarrow> 'v shared \<Rightarrow> 'v shared" where
  "step i s =
     (if i < length (threads s)
      then (case thread_step (threads s ! i) s of
              (t', s') \<Rightarrow> s'\<lparr>threads := (threads s)[i := t']\<rparr>)
      else s)"

definition run_threads :: "nat list \<Rightarrow> 'v shared \<Rightarrow> 'v shared" where
  "run_threads schedule s = fold step schedule s"

section \<open>What the claims speak of\<close>

text \<open>The cache a memoized call selects by its scope and name (for the calling thread), and the
  number of invocations of wrapped callables in a trace.\<close>

definition selected_cache :: "nat \<Rightarrow> string \<Rightarrow> string \<Rightarrow> ('v, 'w, 'm) memo_state_scheme \<Rightarrow> (pykey \<times> 'v) list" where
  "selected_cache tid scope name s = (if scope = ''thread'' then thread_cache tid name s else the_cache name s)"

fun invocations :: "event list \<Rightarrow> nat" where
  "invocations [] = 0"
| "invocations (Invoke n # es) = Suc (invocations es)"
| "invocations (e # es) = invocations es"

text \<open>
  A process-scoped memoized call does not wait: no other thread holds \<open>STORE_LOCK\<close>, and the
  cache of the name, if it exists, has the pool of 100 locks that the memoized calls make it
  with, the lock of the key free.
\<close>

definition ready :: "(pykey \<Rightarrow> int) \<Rightarrow> string \<Rightarrow> pykey \<Rightarrow> ('v, 'm) pc_host_scheme \<Rightarrow> bool" where
  "ready kh name key s =
     (\<not> store_lock s \<and>
      (case map_of (cache_store s) name of
         None \<Rightarrow> True
       | Some (c, l) \<Rightarrow>
           (case l of
              LockList ls \<Rightarrow> length ls = 100 \<and> \<not> ls ! nat (kh key mod 100)
            | LockDict m \<Rightarrow> False)))"

text \<open>
  The entry of a key in the per-key lock map of a cache (\<open>None\<close> when the locks are a pool), and
  the lock map without the entry of a key.
\<close>

definition lock_entry :: "string \<Rightarrow> pykey \<Rightarrow> ('v, 'm) pc_host_scheme \<Rightarrow> bool option" where
  "lock_entry name key s = (case the_locks name s of LockDict m \<Rightarrow> map_of m key | LockList ls \<Rightarrow> None)"

definition drop_lock :: "pykey \<Rightarrow> locks \<Rightarrow> locks" where
  "drop_lock key l = (case l of LockDict m \<Rightarrow> LockDict (AList.delete key m) | LockList ls \<Rightarrow> l)"

text \<open>
  "Every removal of a lock entry happens while the lock of that entry is held", read on a
  trace: \<open>H\<close> are the locks held so far.
\<close>

fun removal_under_lock :: "lock_id list \<Rightarrow> event list \<Rightarrow> bool" where
  "removal_under_lock H [] = True"
| "removal_under_lock H (Acquire l # es) = removal_under_lock (l # H) es"
| "removal_under_lock H (Release l # es) = removal_under_lock (removeAll l H) es"
| "removal_under_lock H (DelLock n k # es) = (KeyLock n k \<in> set H \<and> removal_under_lock H es)"
| "removal_under_lock H (Invoke n # es) = removal_under_lock H es"

text \<open>
  The slot of a property on an owner, and that a read of the property does not have to wait:
  no other thread holds \<open>STORE_LOCK\<close> or the lock of the property.
\<close>

definition slot_of :: "string \<Rightarrow> ('r, 'w) owner \<Rightarrow> 'r slot option" where
  "slot_of n s = map_of (the_cache ''property_cache'' s) (KStr n)"

definition property_ready :: "string \<Rightarrow> ('r, 'w) owner \<Rightarrow> bool" where
  "property_ready n s =
     (\<not> store_lock s \<and>
      (case map_of (cache_store s) ''property_cache'' of
         None \<Rightarrow> True
       | Some (c, l) \<Rightarrow>
           (case l of
              LockDict m \<Rightarrow> map_of m (KStr n) \<noteq> Some True
            | LockList ls \<Rightarrow> False)))"

text \<open>
  The state in which the critical section of a read starts: the store and the cache of the
  properties exist (\<open>get_cache\<close> has made them if they did not), and the calling thread holds
  the lock of the property.
\<close>

definition enter :: "string \<Rightarrow> ('r, 'w) owner \<Rightarrow> ('r, 'w) owner" where
  "enter n s =
     log (Acquire (KeyLock ''property_cache'' (KStr n)))
       (upd_locks ''property_cache''
          (\<lambda>l. case l of LockDict m \<Rightarrow> LockDict (AList.update (KStr n) True m) | LockList ls \<Rightarrow> l)
          (snd (ProcessCache_init ''property_cache'' 0 s)))"

text \<open>
  What a read leaves as it is when it serves: the slots, the attributes, the world, the
  files, and the number of invocations of functions.
\<close>

definition untouched :: "('r, 'w) owner \<Rightarrow> ('r, 'w) owner \<Rightarrow> bool" where
  "untouched s s' =
     (the_cache ''property_cache'' s' = the_cache ''property_cache'' s \<and> attrs s' = attrs s
      \<and> env s' = env s \<and> files s' = files s \<and> invocations (trace s') = invocations (trace s))"

text \<open>
  A read \<open>r\<close> serves the value \<open>v\<close> from the state \<open>s\<close>; and a read recomputes: the function is
  called once, holding the lock of the property, and when it returns a value the pair of the
  snapshot and the value becomes the slot and the value is returned; when it raises, the
  exception goes to the caller and the slots stay as the function left them; apart from the
  slot, the read leaves the state as the function left it, and the lock of the property free.
  A function that gives up the lock it is called under (by writing to the cache store in the
  \<open>__dict__\<close> of the owner) is not spoken of.
\<close>

definition serves :: "'r ref \<Rightarrow> ('r, 'w) owner \<Rightarrow> 'r ref outcome \<times> ('r, 'w) owner \<Rightarrow> bool" where
  "serves v s r = (fst r = Return v \<and> untouched s (snd r))"

definition recomputes ::
  "('r, 'w) getter \<Rightarrow> ('r, 'w) cached_property \<Rightarrow> string \<Rightarrow> 'r ref list \<Rightarrow> ('r, 'w) owner
     \<Rightarrow> 'r ref outcome \<times> ('r, 'w) owner \<Rightarrow> bool" where
  "recomputes ga p n dep_values s r =
     (case call_function ga p (enter n s) of
        (Return v, s3) \<Rightarrow>
          lock_entry ''property_cache'' (KStr n) s3 = Some True \<longrightarrow>
            fst r = Return v
            \<and> the_cache ''property_cache'' (snd r) = AList.update (KStr n) (dep_values, v) (the_cache ''property_cache'' s3)
            \<and> attrs (snd r) = attrs s3 \<and> env (snd r) = env s3 \<and> files (snd r) = files s3
            \<and> invocations (trace (snd r)) = invocations (trace s3)
            \<and> lock_entry ''property_cache'' (KStr n) (snd r) = Some False
      | (Raise e, s3) \<Rightarrow>
          lock_entry ''property_cache'' (KStr n) s3 = Some True \<longrightarrow>
            fst r = Raise e \<and> untouched s3 (snd r)
            \<and> lock_entry ''property_cache'' (KStr n) (snd r) \<noteq> Some True
      | (Blocked, s3) \<Rightarrow> r = (Blocked, s3))"

text \<open>
  What the read of a dependency gives: the dependency is unset (\<open>AttributeError\<close>) or \<open>None\<close>, or it
  is present.
\<close>

definition unset_or_None :: "'r ref outcome \<Rightarrow> bool" where
  "unset_or_None r = (case r of Return v \<Rightarrow> v = PyNone | Raise e \<Rightarrow> (case e of AttributeError n \<Rightarrow> True | _ \<Rightarrow> False)
                      | Blocked \<Rightarrow> False)"

definition present :: "'r ref outcome \<Rightarrow> bool" where
  "present r = (case r of Return v \<Rightarrow> v \<noteq> PyNone | _ \<Rightarrow> False)"


section \<open>Example inputs\<close>

text \<open>
  A hash function to evaluate \<open>hash_content\<close> with: the length of the type name plus the integer,
  the length of the string, the sum of the tuple or the sum of the hashes in the frozenset.
\<close>

definition toy_hash :: "canon \<times> string \<Rightarrow> int" where
  "toy_hash p = (case p of (c, tn) \<Rightarrow> int (length tn) +
      (case c of CRaw a \<Rightarrow> (case a of AInt n \<Rightarrow> n | AStr s \<Rightarrow> int (length s) | _ \<Rightarrow> 0)
       | CTuple xs \<Rightarrow> sum_list xs
       | CFrozenset S \<Rightarrow> sum snd S))"

text \<open>A hash of cache keys: the integer itself, the length of a string.\<close>

definition key_hash :: "pykey \<Rightarrow> int" where
  "key_hash k = (case k of KInt i \<Rightarrow> i | KStr n \<Rightarrow> int (length n))"

text \<open>A function of one parameter \<open>x\<close> that returns the pair of its argument and a counter of
  the calls, as the test suite's function returns a fresh random number with its argument.\<close>

definition func :: "nat callable" where
  "func = \<lparr>cname = ''func'',
           bind = (\<lambda>a. case a of
                     ([x], []) \<Rightarrow> Inr [(KStr ''x'', x)]
                   | ([], [(n, x)]) \<Rightarrow> if n = ''x'' then Inr [(KStr ''x'', x)] else Inl (TypeError ''bind'')
                   | _ \<Rightarrow> Inl (TypeError ''bind'')),
           run = (\<lambda>a w. (Inr (py_tuple (fst a @ map snd (snd a) @ [py_int (int w)])), Suc w))\<rparr>"

definition fresh :: "(pyval, nat) memo_state" where
  "fresh = \<lparr>store = None, store_lock = False, trace = [], tstore = [], world = 0\<rparr>"

text \<open>The store of a host on which the property \<open>prop\<close>, without dependencies, has the value 1;
  its lock is free.\<close>

definition full_host :: "(pyval list \<times> pyval) pc_host" where
  "full_host =
     \<lparr>store = Some [(''property_cache'',
                     ([(KStr ''prop'', ([], py_int 1))], LockDict [(KStr ''prop'', False)]))],
      store_lock = False, trace = []\<rparr>"

text \<open>
  References to integers, the integer standing for the object, with \<open>==\<close> on tuples of them; a
  file name template without placeholders, which \<open>str.format\<close> returns as it is.
\<close>

definition int_eq :: "nat \<Rightarrow> int ref list \<Rightarrow> int ref list \<Rightarrow> pyerr + bool" where
  "int_eq w a b = Inr (a = b)"

definition no_format :: "string \<Rightarrow> (string \<times> int ref) list \<Rightarrow> pyerr + string" where
  "no_format template kv = Inr template"

text \<open>
  The class \<open>Crowded\<close> of \<open>test_lock_collisions\<close> with two properties: the function of \<open>p0\<close> returns
  \<open>getattr(slf, 'p-1', -1) + 1\<close> and that of \<open>p1\<close>, which depends on \<open>p0\<close>, returns
  \<open>getattr(slf, 'p0', -1) + 1\<close>.
\<close>

definition successor :: "string \<Rightarrow> string \<Rightarrow> (int, nat) pfunction" where
  "successor prev n =
     \<lparr>function_name = n,
      function_body = (\<lambda>ga s. case ga prev s of
                               (Return (Ref i), s') \<Rightarrow> (Return (Ref (i + 1)), s')
                             | (Return PyNone, s') \<Rightarrow> (Raise (TypeError ''unsupported operand type(s) for +''), s')
                             | (Raise (AttributeError a), s') \<Rightarrow> (Return (Ref 0), s')
                             | (Raise e, s') \<Rightarrow> (Raise e, s')
                             | (Blocked, s') \<Rightarrow> (Blocked, s'))\<rparr>"

definition p0 :: "(int, nat) cached_property" where
  "p0 = cached_property_init remdups (Method (successor ''p-1'' ''p0'')) []"

definition p1 :: "(int, nat) cached_property" where
  "p1 = cached_property_init remdups (Method (successor ''p0'' ''p1'')) [''p0'']"

definition Crowded :: "(string \<times> (int, nat) class_attr) list" where
  "Crowded = [(''p0'', Descriptor p0), (''p1'', Descriptor p1)]"

definition crowded_getattr :: "(int, nat) getter" where
  "crowded_getattr = getattr 10 key_hash no_format int_eq Crowded"

definition new_object :: "(int, nat) owner" where
  "new_object = \<lparr>store = None, store_lock = False, trace = [], attrs = [], files = [], env = 0\<rparr>"

text \<open>The object after a read of \<open>p1\<close>, and after \<open>obj.p0 = 5\<close> on top of that.\<close>

definition after_read :: "(int, nat) owner" where
  "after_read = snd (crowded_getattr ''p1'' new_object)"

definition after_set :: "(int, nat) owner" where
  "after_set = snd (cached_property_set key_hash no_format crowded_getattr p0 (Ref 5) after_read)"

text \<open>
  Threads that enter the lock of the property \<open>prop\<close>: one that clears the slot (\<open>__delete__\<close>), and
  one whose critical section stores a value in the slot (a read that recomputes).
\<close>

definition deleter :: "int thread" where
  "deleter = \<lparr>at = AtLookup, thread_key = KStr ''prop'', my_lock = None,
              critical_section = AList.delete (KStr ''prop'')\<rparr>"

definition reader :: "int thread" where
  "reader = \<lparr>at = AtLookup, thread_key = KStr ''prop'', my_lock = None,
             critical_section = AList.update (KStr ''prop'') 2\<rparr>"

definition shared_start :: "(pykey \<times> int) list \<Rightarrow> int thread list \<Rightarrow> int shared" where
  "shared_start c ts = \<lparr>shared_cache = c, lock_map = [], locks_made = 0, held_locks = [], threads = ts\<rparr>"


definition first_x :: "(int, nat) method_or_dependency" where
  "first_x = Dependency ''x''"


definition last_digit_eq :: "nat \<Rightarrow> int ref list \<Rightarrow> int ref list \<Rightarrow> pyerr + bool" where
  "last_digit_eq w a b = Inr (map (map_ref (\<lambda>i. i mod 10)) a = map (map_ref (\<lambda>i. i mod 10)) b)"

definition instance_getattr :: "(int, nat) getter" where
  "instance_getattr = getattr 10 key_hash no_format last_digit_eq []"


text \<open>
  The class \<open>HasLazyProperty\<close> of the test suite: \<open>lazy_sum\<close> depends on \<open>x\<close> and \<open>y\<close> and returns their
  sum; an object with \<open>x = 3\<close> and \<open>y = None\<close>, and one with \<open>x = 3\<close> and \<open>y = 4\<close>.
\<close>

definition sum_xy :: "string \<Rightarrow> (int, nat) pfunction" where
  "sum_xy n =
     \<lparr>function_name = n,
      function_body = (\<lambda>ga s. case ga ''x'' s of
                               (Return (Ref i), s') \<Rightarrow>
                                 (case ga ''y'' s' of
                                    (Return (Ref j), s'') \<Rightarrow> (Return (Ref (i + j)), s'')
                                  | (Return PyNone, s'') \<Rightarrow> (Raise (TypeError ''unsupported operand type(s) for +''), s'')
                                  | (Raise e, s'') \<Rightarrow> (Raise e, s'')
                                  | (Blocked, s'') \<Rightarrow> (Blocked, s''))
                             | (Return PyNone, s') \<Rightarrow> (Raise (TypeError ''unsupported operand type(s) for +''), s')
                             | (Raise e, s') \<Rightarrow> (Raise e, s')
                             | (Blocked, s') \<Rightarrow> (Blocked, s'))\<rparr>"

definition lazy_sum :: "(int, nat) cached_property" where
  "lazy_sum = decorate (lazy_property_init remdups first_x [''y'']) (sum_xy ''lazy_sum'')"

definition y_is_None :: "(int, nat) owner" where
  "y_is_None = new_object\<lparr>attrs := [(''x'', Ref 3), (''y'', PyNone)]\<rparr>"

definition both_set :: "(int, nat) owner" where
  "both_set = new_object\<lparr>attrs := [(''x'', Ref 3), (''y'', Ref 4)]\<rparr>"

text \<open>
  A class with a cached property \<open>nothing\<close>, whose function returns \<open>None\<close>, and a lazy property
  that depends on it.
\<close>

definition returns_None :: "string \<Rightarrow> (int, nat) pfunction" where
  "returns_None n = \<lparr>function_name = n, function_body = (\<lambda>ga s. (Return PyNone, s))\<rparr>"

definition nothing :: "(int, nat) cached_property" where
  "nothing = cached_property_init remdups (Method (returns_None ''nothing'')) []"

definition lazy_on_nothing :: "(int, nat) cached_property" where
  "lazy_on_nothing = lazy_property_init remdups (Method (successor ''nothing'' ''lazy_on_nothing'')) [''nothing'']"

definition lazy_getattr :: "(int, nat) getter" where
  "lazy_getattr = getattr 10 key_hash no_format int_eq
                    [(''nothing'', Descriptor nothing), (''lazy_on_nothing'', Descriptor lazy_on_nothing)]"


section \<open>Properties of the ContentHasher\<close>

text \<open>The equations of \<open>_hash_content\<close>, one for each kind of value.\<close>

lemma hash_content_Atom: "hash_content h (Atom tn a) = h (CRaw a, tn)"
  by (simp add: hash_content.simps [of h "Atom tn a"])

lemma hash_content_Logger: "hash_content h (Logger tn name) = h (CRaw (AStr name), tn)"
  by (simp add: hash_content.simps [of h "Logger tn name"])

lemma hash_content_Iter: "hash_content h (Iter tn xs) = h (CTuple (map (hash_content h) xs), tn)"
  by (simp add: hash_content.simps [of h "Iter tn xs"])

lemma hash_content_Inst_plain:
  "hash_content h (Inst tn proxy ns nm None) =
     h (CFrozenset ((\<lambda>(k, v). (k, hash_content h v)) ` set (objdict tn proxy ns nm)), tn)"
  by (simp add: hash_content.simps [of h "Inst tn proxy ns nm None"])

lemma set_update_distinct:
  "distinct (map fst d) \<Longrightarrow> set (AList.update k v d) = insert (k, v) {p \<in> set d. fst p \<noteq> k}"
proof (induction d)
  case Nil
  then show ?case by simp
next
  case (Cons p d)
  obtain k' v' where p: "p = (k', v')" by (cases p)
  show ?case
  proof (cases "k' = k")
    case True
    with Cons.prems p have "\<forall>q \<in> set d. fst q \<noteq> k" by auto
    with True p show ?thesis by auto
  next
    case False
    with Cons p show ?thesis by auto
  qed
qed

lemma hash_content_Dict:
  "hash_content h (Dict tn d) = h (CFrozenset ((\<lambda>(k, v). (k, hash_content h v)) ` set d), tn)"
  by (simp add: hash_content.simps [of h "Dict tn d"])

lemma hash_content_Inst_dict:
  "hash_content h (Inst tn proxy ns nm (Some d)) =
     h (CFrozenset ((\<lambda>(k, v). (k, hash_content h v)) `
          set (AList.update (KStr ''___objdict'') (py_dict (objdict tn proxy ns nm)) d)), tn)"
  by (simp add: hash_content.simps [of h "Inst tn proxy ns nm (Some d)"])

text \<open>
  C4. Two mappings of the same runtime type (and, for an instance of a dict subclass, the same
  attribute namespace) whose items are the same set of (key, sub-value) pairs, in whatever
  order, get the same hash: the canonical form of a mapping is the set of the pairs
  (key, hash of the sub-value), in which the order of the items is lost.
\<close>

theorem hash_content_mapping_order_independent:
  assumes "distinct (map fst d1)" and "distinct (map fst d2)" and "set d1 = set d2"
  shows "hash_content h (Dict tn d1) = h (CFrozenset ((\<lambda>(k, v). (k, hash_content h v)) ` set d1), tn)
       \<and> hash_content h (Dict tn d1) = hash_content h (Dict tn d2)
       \<and> hash_content h (Inst tn proxy ns nm (Some d1)) = hash_content h (Inst tn proxy ns nm (Some d2))"
proof -
  have "set (AList.update (KStr ''___objdict'') (py_dict (objdict tn proxy ns nm)) d1)
      = set (AList.update (KStr ''___objdict'') (py_dict (objdict tn proxy ns nm)) d2)"
    using assms by (simp add: set_update_distinct)
  then show ?thesis
    using assms(3) by (simp add: hash_content_Dict hash_content_Inst_dict)
qed

theorem hash_content_mapping_order_independent_witness:
  "distinct (map fst [(KStr ''a'', py_int 1), (KStr ''b'', py_list [py_int 2])])
   \<and> distinct (map fst [(KStr ''b'', py_list [py_int 2]), (KStr ''a'', py_int 1)])
   \<and> set [(KStr ''a'', py_int 1), (KStr ''b'', py_list [py_int 2])] = set [(KStr ''b'', py_list [py_int 2]), (KStr ''a'', py_int 1)]
   \<and> hash_content toy_hash (Dict ''dict'' [(KStr ''a'', py_int 1), (KStr ''b'', py_list [py_int 2])])
     = hash_content toy_hash (Dict ''dict'' [(KStr ''b'', py_list [py_int 2]), (KStr ''a'', py_int 1)])
   \<and> hash_content toy_hash (Dict ''dict'' [(KStr ''b'', py_list [py_int 2]), (KStr ''a'', py_int 1)]) = 17"
proof -
  have e: "set [(KStr ''a'', py_int 1), (KStr ''b'', py_list [py_int 2])] = set [(KStr ''b'', py_list [py_int 2]), (KStr ''a'', py_int 1)]"
    by (simp add: insert_commute)
  have v: "hash_content toy_hash (Dict ''dict'' [(KStr ''a'', py_int 1), (KStr ''b'', py_list [py_int 2])]) = 17"
    by (simp add: hash_content_Dict hash_content_Atom hash_content_Iter py_int_def py_list_def toy_hash_def)
  from hash_content_mapping_order_independent [OF _ _ e, of toy_hash "''dict''"] e v
  show ?thesis by simp
qed


section \<open>Properties of the cache stores\<close>

lemma seq_Return: "seq (Return a, s) f = f a s"
  by (simp add: seq_def)

lemma seq_Raise: "seq (Raise e, s) f = (Raise e, s)"
  by (simp add: seq_def)

lemma seq_Blocked: "seq (Blocked, s) f = (Blocked, s)"
  by (simp add: seq_def)

lemma seq_ReturnE:
  assumes "seq r f = (Return v, s')"
  obtains a s1 where "r = (Return a, s1)" and "f a s1 = (Return v, s')"
  using assms by (cases r; cases "fst r") (auto simp: seq_def)

lemma invocations_append: "invocations (xs @ ys) = invocations xs + invocations ys"
  by (induction xs rule: invocations.induct) auto

lemma the_cache_simps [simp]:
  "the_cache name (log e s) = the_cache name s"
  "the_cache name (upd_locks name' f s) = the_cache name s"
  "the_cache name (s\<lparr>store_lock := b\<rparr>) = the_cache name s"
  "the_cache name (s\<lparr>trace := t\<rparr>) = the_cache name s"
  by (auto simp: the_cache_def log_def upd_locks_def cache_store_def map_of_map_entry split: option.splits)

lemma the_locks_simps [simp]:
  "the_locks name (log e s) = the_locks name s"
  "the_locks name (upd_cache name' g s) = the_locks name s"
  "the_locks name (s\<lparr>store_lock := b\<rparr>) = the_locks name s"
  "the_locks name (s\<lparr>trace := t\<rparr>) = the_locks name s"
  by (auto simp: the_locks_def log_def upd_cache_def cache_store_def map_of_map_entry split: option.splits)

lemma cache_store_simps [simp]:
  "cache_store (log e s) = cache_store s"
  "cache_store (s\<lparr>store_lock := b\<rparr>) = cache_store s"
  "cache_store (s\<lparr>trace := t\<rparr>) = cache_store s"
  by (auto simp: log_def cache_store_def)

lemma world_irrelevant [simp]:
  "the_cache name (s\<lparr>world := w\<rparr>) = the_cache name s"
  "the_locks name (s\<lparr>world := w\<rparr>) = the_locks name s"
  "cache_store (s\<lparr>world := w\<rparr>) = cache_store s"
  by (auto simp: the_cache_def the_locks_def cache_store_def)

lemma entry_upd [simp]:
  "(map_of (cache_store (upd_locks name' f s)) name = None) = (map_of (cache_store s) name = None)"
  "(map_of (cache_store (upd_cache name' g s)) name = None) = (map_of (cache_store s) name = None)"
  by (auto simp: upd_locks_def upd_cache_def cache_store_def map_of_map_entry split: option.splits)

lemma entry_upd_Some [simp]:
  "(\<exists>c l. map_of (cache_store (upd_locks name' f s)) name = Some (c, l))
     = (\<exists>c l. map_of (cache_store s) name = Some (c, l))"
  "(\<exists>c l. map_of (cache_store (upd_cache name' g s)) name = Some (c, l))
     = (\<exists>c l. map_of (cache_store s) name = Some (c, l))"
  by (auto simp: upd_locks_def upd_cache_def cache_store_def map_of_map_entry split: option.splits)

lemma the_locks_upd_locks:
  "map_of (cache_store s) name \<noteq> None \<Longrightarrow> the_locks name (upd_locks name f s) = f (the_locks name s)"
  by (auto simp: the_locks_def upd_locks_def cache_store_def map_of_map_entry split: option.splits)

lemma the_cache_upd_cache:
  "map_of (cache_store s) name \<noteq> None \<Longrightarrow> the_cache name (upd_cache name g s) = g (the_cache name s)"
  by (auto simp: the_cache_def upd_cache_def cache_store_def map_of_map_entry split: option.splits)

lemma host_field_simps [simp]:
  "trace (log e s) = trace s @ [e]" "store_lock (log e s) = store_lock s"
  "trace (upd_locks name f s) = trace s" "store_lock (upd_locks name f s) = store_lock s"
  "trace (upd_cache name g s) = trace s" "store_lock (upd_cache name g s) = store_lock s"
  by (auto simp: log_def upd_locks_def upd_cache_def)

lemma state_field_simps [simp]:
  "world (log e s) = world s" "tstore (log e s) = tstore s"
  "world (upd_locks name f s) = world s" "tstore (upd_locks name f s) = tstore s"
  "world (upd_cache name g s) = world s" "tstore (upd_cache name g s) = tstore s"
  by (auto simp: log_def upd_locks_def upd_cache_def)

lemma pc_contains_simps [simp]:
  "pc_contains pc key (log e s) = pc_contains pc key s"
  "pc_contains pc key (upd_locks name f s) = pc_contains pc key s"
  by (simp_all add: pc_contains_def)

lemma thread_cache_simps [simp]:
  "thread_cache tid name (log e s) = thread_cache tid name s"
  "thread_cache tid name (s\<lparr>world := w\<rparr>) = thread_cache tid name s"
  "thread_local tid (log e s) = thread_local tid s"
  "thread_local tid (s\<lparr>world := w\<rparr>) = thread_local tid s"
  by (auto simp: thread_cache_def thread_local_def log_def)

lemma thread_hit:
  assumes "map_of (thread_cache tid name s) key = Some v"
  shows "ThreadCache_init tid name s = (Return (ThreadCache tid name), s)"
  using assms by (auto simp: ThreadCache_init_def thread_cache_def split: option.splits)

lemma thread_cache_after_init:
  "thread_cache tid name (snd (ThreadCache_init tid name s)) = thread_cache tid name s"
  by (auto simp: ThreadCache_init_def thread_cache_def thread_local_def update_conv' split: option.splits)

lemma thread_entry_after_init:
  "map_of (thread_local tid (snd (ThreadCache_init tid name s))) name \<noteq> None"
  by (auto simp: ThreadCache_init_def thread_local_def update_conv' split: option.splits)

lemma map_of_map_entry: "map_of (AList.map_entry k f xs) k' = (if k' = k then map_option f (map_of xs k) else map_of xs k')"
  by (induction xs) auto

lemma thread_cache_setitem:
  assumes "map_of (thread_local tid s) name \<noteq> None"
  shows "thread_cache tid name (Cache_setitem (ThreadCache tid name) key v s) = AList.update key v (thread_cache tid name s)"
  using assms
  by (auto simp: Cache_setitem_def thread_cache_def thread_local_def map_of_map_entry split: option.splits)


lemma process_init_existing:
  assumes "map_of (cache_store s) name \<noteq> None"
  shows "ProcessCache_init name n s = (Return \<lparr>pc_name = name, n_locks = nat (max n 0)\<rparr>, s)"
proof -
  from assms have a: "(map_of (cache_store s) name = None) = False" by simp
  from assms have b: "(store s = None) = False" by (cases "store s") (auto simp: cache_store_def)
  show ?thesis unfolding ProcessCache_init_def by (simp only: a b if_False seq_Return)
qed

lemma process_init_ready:
  assumes "ready kh name key s"
  obtains s1 where "ProcessCache_init name 100 s = (Return \<lparr>pc_name = name, n_locks = 100\<rparr>, s1)"
    and "the_cache name s1 = the_cache name s"
    and "map_of (cache_store s1) name \<noteq> None"
    and "ready kh name key s1"
    and "world s1 = world s" and "tstore s1 = tstore s"
    and "invocations (trace s1) = invocations (trace s)"
proof (cases "map_of (cache_store s) name = None")
  case False
  with assms process_init_existing [of s name 100] that [of s] show ?thesis by simp
next
  case True
  let ?s1 = "snd (ProcessCache_init name 100 s)"
  from assms have free: "\<not> store_lock s" by (simp add: ready_def)
  have "ProcessCache_init name 100 s = (Return \<lparr>pc_name = name, n_locks = 100\<rparr>, ?s1)
      \<and> the_cache name ?s1 = the_cache name s
      \<and> map_of (cache_store ?s1) name \<noteq> None
      \<and> ready kh name key ?s1
      \<and> world ?s1 = world s \<and> tstore ?s1 = tstore s
      \<and> invocations (trace ?s1) = invocations (trace s)"
  proof (cases "store s")
    case None
    with True free show ?thesis
      by (simp add: ProcessCache_init_def with_STORE_LOCK_def seq_Return log_def cache_store_def
          the_cache_def ready_def new_locks_def update_conv' invocations_append)
  next
    case (Some cs)
    with True free show ?thesis
      by (simp add: ProcessCache_init_def with_STORE_LOCK_def seq_Return log_def cache_store_def
          the_cache_def ready_def new_locks_def update_conv' invocations_append)
  qed
  then show ?thesis using that [of ?s1] by blast
qed


lemma pool_lock:
  assumes e: "map_of (cache_store s) name \<noteq> None"
    and l: "the_locks name s = LockList ls" and n: "length ls = n" "0 < n"
    and free: "\<not> ls ! nat (kh key mod int n)"
    and body: "body (log (Acquire (PoolLock name (nat (kh key mod int n))))
                 (upd_locks name (\<lambda>_. LockList (ls[nat (kh key mod int n) := True])) s)) = (res, s')"
    and res: "res \<noteq> Blocked"
  shows "ProcessCache_lock kh \<lparr>pc_name = name, n_locks = n\<rparr> key body s
       = (res, log (Release (PoolLock name (nat (kh key mod int n))))
                 (upd_locks name (set_held (ListRef (nat (kh key mod int n))) False) s'))"
proof -
  have i: "0 \<le> kh key mod int n" "kh key mod int n < int (length ls)" using n by simp_all
  have g: "locks_getitem kh n key (LockList ls) = (Inr (ListRef (nat (kh key mod int n))), LockList ls)"
    using n i by (simp add: locks_getitem_def list_index_def)
  show ?thesis
    using g l n free body res
    by (cases res) (simp_all add: ProcessCache_lock_def with_lock_def lock_finally_def)
qed


lemma ready_entry:
  assumes "ready kh name key s" and "map_of (cache_store s) name \<noteq> None"
  shows "\<exists>ls. the_locks name s = LockList ls \<and> length ls = 100 \<and> \<not> ls ! nat (kh key mod 100)"
proof -
  from assms obtain c l where e: "map_of (cache_store s) name = Some (c, l)" by auto
  with assms(1) show ?thesis by (cases l) (simp_all add: ready_def the_locks_def)
qed

lemma process_hit:
  assumes b: "(case im of None \<Rightarrow> bind f a | Some b \<Rightarrow> b (py_none # fst a, snd a)) = Inr arguments"
    and hit: "map_of (the_cache name s) (KInt (hash_content h (py_dict arguments))) = Some v"
  shows "cached_call_impl h kh tid ''process'' name f im a s = (Return v, s)"
proof -
  from hit have e: "map_of (cache_store s) name \<noteq> None"
    by (auto simp: the_cache_def split: option.splits)
  show ?thesis
    using b hit process_init_existing [OF e, of 100]
    by (simp add: cached_call_impl_def seq_Return Cache_contains_def pc_contains_def
        Cache_getitem_def pc_getitem_def)
qed

lemma thread_hit_call:
  assumes b: "(case im of None \<Rightarrow> bind f a | Some b \<Rightarrow> b (py_none # fst a, snd a)) = Inr arguments"
    and hit: "map_of (thread_cache tid name s) (KInt (hash_content h (py_dict arguments))) = Some v"
  shows "cached_call_impl h kh tid ''thread'' name f im a s = (Return v, s)"
  using b hit thread_hit [OF hit]
  by (simp add: cached_call_impl_def seq_Return Cache_contains_def Cache_getitem_def)

lemma process_miss:
  assumes b: "(case im of None \<Rightarrow> bind f a | Some b \<Rightarrow> b (py_none # fst a, snd a)) = Inr arguments"
    and r: "ready kh name (KInt (hash_content h (py_dict arguments))) s"
    and miss: "map_of (the_cache name s) (KInt (hash_content h (py_dict arguments))) = None"
  shows "\<exists>s'. cached_call_impl h kh tid ''process'' name f im a s
               = ((case fst (run f a (world s)) of Inr v \<Rightarrow> Return v | Inl e \<Rightarrow> Raise e), s')
            \<and> map_of (the_cache name s') (KInt (hash_content h (py_dict arguments)))
               = (case fst (run f a (world s)) of Inr v \<Rightarrow> Some v | Inl e \<Rightarrow> None)
            \<and> world s' = snd (run f a (world s))
            \<and> invocations (trace s') = Suc (invocations (trace s))"
proof -
  let ?key = "KInt (hash_content h (py_dict arguments))"
  let ?pc = "\<lparr>pc_name = name, n_locks = 100\<rparr>"
  let ?i = "nat (kh ?key mod int 100)"
  obtain s1 where init: "ProcessCache_init name 100 s = (Return ?pc, s1)"
    and c1: "the_cache name s1 = the_cache name s"
    and e1: "map_of (cache_store s1) name \<noteq> None"
    and r1: "ready kh name ?key s1"
    and w1: "world s1 = world s"
    and i1: "invocations (trace s1) = invocations (trace s)"
    using process_init_ready [OF r] by metis
  obtain ls where l1: "the_locks name s1 = LockList ls" and len: "length ls = 100"
    and free: "\<not> ls ! nat (kh ?key mod int 100)"
    using ready_entry [OF r1 e1] by auto
  let ?s2 = "log (Acquire (PoolLock name ?i)) (upd_locks name (\<lambda>_. LockList (ls[?i := True])) s1)"
  let ?body = "\<lambda>s. if \<not> Cache_contains (ProcessCache ?pc) ?key s
                   then seq (invoke f a s) (\<lambda>v s. (Return (), Cache_setitem (ProcessCache ?pc) ?key v s))
                   else (Return (), s)"
  have miss2: "\<not> Cache_contains (ProcessCache ?pc) ?key ?s2"
    using miss c1 by (simp add: Cache_contains_def pc_contains_def)
  have miss1: "\<not> Cache_contains (ProcessCache ?pc) ?key s1"
    using miss c1 by (simp add: Cache_contains_def pc_contains_def)
  obtain res w where run: "run f a (world s) = (res, w)" by (cases "run f a (world s)")
  show ?thesis
  proof (cases res)
    case (Inr v)
    let ?s4 = "pc_setitem ?pc ?key v (log (Invoke (cname f)) (?s2\<lparr>world := w\<rparr>))"
    have body: "?body ?s2 = (Return (), ?s4)"
      using miss2 run Inr w1 by (simp add: invoke_def seq_Return Cache_setitem_def)
    have lock: "ProcessCache_lock kh ?pc ?key ?body s1
        = (Return (), log (Release (PoolLock name ?i)) (upd_locks name (set_held (ListRef ?i) False) ?s4))"
      using pool_lock [of s1 name ls 100 kh ?key ?body "Return ()" ?s4, OF e1 l1 len _ free body] by simp
    let ?s5 = "log (Release (PoolLock name ?i)) (upd_locks name (set_held (ListRef ?i) False) ?s4)"
    have c5: "the_cache name ?s5 = AList.update ?key v (the_cache name s)"
      using e1 c1 by (simp add: pc_setitem_def the_cache_upd_cache)
    have "cached_call_impl h kh tid ''process'' name f im a s = (Return v, ?s5)"
      using b init miss1 lock c5
      by (simp add: cached_call_impl_def seq_Return Cache_lock_def Cache_getitem_def pc_getitem_def
          update_conv')
    moreover have "map_of (the_cache name ?s5) ?key = Some v"
      using c5 by (simp add: update_conv')
    moreover have "world ?s5 = w" by (simp add: pc_setitem_def)
    moreover have "invocations (trace ?s5) = Suc (invocations (trace s))"
      using i1 by (simp add: pc_setitem_def invocations_append)
    ultimately show ?thesis using run Inr by auto
  next
    case (Inl e)
    let ?s4 = "log (Invoke (cname f)) (?s2\<lparr>world := w\<rparr>)"
    have body: "?body ?s2 = (Raise e, ?s4)"
      using miss2 run Inl w1 by (simp add: invoke_def seq_Raise)
    have lock: "ProcessCache_lock kh ?pc ?key ?body s1
        = (Raise e, log (Release (PoolLock name ?i)) (upd_locks name (set_held (ListRef ?i) False) ?s4))"
      using pool_lock [of s1 name ls 100 kh ?key ?body "Raise e" ?s4, OF e1 l1 len _ free body] by simp
    let ?s5 = "log (Release (PoolLock name ?i)) (upd_locks name (set_held (ListRef ?i) False) ?s4)"
    have "cached_call_impl h kh tid ''process'' name f im a s = (Raise e, ?s5)"
      using b init miss1 lock
      by (simp add: cached_call_impl_def seq_Return seq_Raise Cache_lock_def)
    moreover have "map_of (the_cache name ?s5) ?key = None"
      using c1 miss by simp
    moreover have "world ?s5 = w" by simp
    moreover have "invocations (trace ?s5) = Suc (invocations (trace s))"
      using i1 by (simp add: invocations_append)
    ultimately show ?thesis using run Inl by auto
  qed
qed


lemma thread_miss:
  assumes b: "(case im of None \<Rightarrow> bind f a | Some b \<Rightarrow> b (py_none # fst a, snd a)) = Inr arguments"
    and miss: "map_of (thread_cache tid name s) (KInt (hash_content h (py_dict arguments))) = None"
  shows "\<exists>s'. cached_call_impl h kh tid ''thread'' name f im a s
               = ((case fst (run f a (world s)) of Inr v \<Rightarrow> Return v | Inl e \<Rightarrow> Raise e), s')
            \<and> map_of (thread_cache tid name s') (KInt (hash_content h (py_dict arguments)))
               = (case fst (run f a (world s)) of Inr v \<Rightarrow> Some v | Inl e \<Rightarrow> None)
            \<and> world s' = snd (run f a (world s))
            \<and> invocations (trace s') = Suc (invocations (trace s))"
proof -
  let ?key = "KInt (hash_content h (py_dict arguments))"
  define s1 where "s1 = snd (ThreadCache_init tid name s)"
  have init: "ThreadCache_init tid name s = (Return (ThreadCache tid name), s1)"
    by (simp add: ThreadCache_init_def s1_def)
  have c1: "thread_cache tid name s1 = thread_cache tid name s"
    unfolding s1_def by (rule thread_cache_after_init)
  have e1: "map_of (thread_local tid s1) name \<noteq> None"
    unfolding s1_def by (rule thread_entry_after_init)
  have w1: "world s1 = world s" "trace s1 = trace s" by (simp_all add: ThreadCache_init_def s1_def)
  have miss1: "\<not> Cache_contains (ThreadCache tid name) ?key s1"
    using miss c1 by (simp add: Cache_contains_def)
  obtain res w where run: "run f a (world s) = (res, w)" by (cases "run f a (world s)")
  show ?thesis
  proof (cases res)
    case (Inr v)
    let ?s3 = "Cache_setitem (ThreadCache tid name) ?key v (log (Invoke (cname f)) (s1\<lparr>world := w\<rparr>))"
    have e2: "map_of (thread_local tid (log (Invoke (cname f)) (s1\<lparr>world := w\<rparr>))) name \<noteq> None"
      using e1 by simp
    have c3: "thread_cache tid name ?s3 = AList.update ?key v (thread_cache tid name s)"
      using thread_cache_setitem [OF e2, of ?key v] c1 by simp
    have w3: "world ?s3 = w" "trace ?s3 = trace s @ [Invoke (cname f)]"
      using w1 by (simp_all add: Cache_setitem_def)
    have "cached_call_impl h kh tid ''thread'' name f im a s = (Return v, ?s3)"
      using b init miss1 run Inr w1 c3
      by (simp add: cached_call_impl_def seq_Return Cache_lock_def invoke_def Cache_getitem_def update_conv')
    moreover have "map_of (thread_cache tid name ?s3) ?key = Some v"
      using c3 by (simp add: update_conv')
    ultimately show ?thesis using run Inr w3 by (auto simp: invocations_append)
  next
    case (Inl e)
    let ?s3 = "log (Invoke (cname f)) (s1\<lparr>world := w\<rparr>)"
    have "cached_call_impl h kh tid ''thread'' name f im a s = (Raise e, ?s3)"
      using b init miss1 run Inl w1
      by (simp add: cached_call_impl_def seq_Return seq_Raise Cache_lock_def invoke_def)
    moreover have "map_of (thread_cache tid name ?s3) ?key = None"
      using c1 miss by simp
    moreover have "world ?s3 = w" "trace ?s3 = trace s @ [Invoke (cname f)]" using w1 by simp_all
    ultimately show ?thesis using run Inl by (auto simp: invocations_append)
  qed
qed

lemma ProcessCache_init_Return:
  assumes "ProcessCache_init name n s = (Return pc, s1)"
  shows "pc = \<lparr>pc_name = name, n_locks = nat (max n 0)\<rparr>"
  using assms unfolding ProcessCache_init_def
  by (elim seq_ReturnE) simp

lemma Cache_getitem_Return:
  assumes "Cache_getitem cache key s = (Return v, s')"
  shows "s' = s \<and> (case cache of
            ThreadCache tid name \<Rightarrow> map_of (thread_cache tid name s) key = Some v
          | ProcessCache pc \<Rightarrow> map_of (the_cache (pc_name pc) s) key = Some v)"
  using assms
  by (cases cache) (auto simp: Cache_getitem_def pc_getitem_def split: option.splits)

lemma returned_is_stored:
  assumes scope: "scope = ''thread'' \<or> scope = ''process''"
    and b: "(case im of None \<Rightarrow> bind f a | Some b \<Rightarrow> b (py_none # fst a, snd a)) = Inr arguments"
    and ret: "cached_call_impl h kh tid scope name f im a s = (Return v, s')"
  shows "map_of (selected_cache tid scope name s') (KInt (hash_content h (py_dict arguments))) = Some v"
proof -
  let ?key = "KInt (hash_content h (py_dict arguments))"
  from scope show ?thesis
  proof
    assume t: "scope = ''thread''"
    from ret b t obtain x s2 where "Cache_getitem (ThreadCache tid name) ?key s2 = (Return v, s')"
      unfolding cached_call_impl_def ThreadCache_init_def
      by (simp add: seq_Return) (erule seq_ReturnE)
    from Cache_getitem_Return [OF this] t show ?thesis by (simp add: selected_cache_def)
  next
    assume p: "scope = ''process''"
    let ?F = "\<lambda>cache s.
        seq (if \<not> Cache_contains cache ?key s
             then Cache_lock kh cache ?key
                    (\<lambda>s. if \<not> Cache_contains cache ?key s
                         then seq (invoke f a s) (\<lambda>v s. (Return (), Cache_setitem cache ?key v s))
                         else (Return (), s)) s
             else (Return (), s))
          (\<lambda>_ s. Cache_getitem cache ?key s)"
    from ret b p have
      "seq (seq (ProcessCache_init name 100 s) (\<lambda>pc s. (Return (ProcessCache pc), s))) ?F = (Return v, s')"
      unfolding cached_call_impl_def by simp
    then obtain cache s1 where
      i: "seq (ProcessCache_init name 100 s) (\<lambda>pc s. (Return (ProcessCache pc), s)) = (Return cache, s1)"
      and rest: "?F cache s1 = (Return v, s')"
      by (rule seq_ReturnE)
    from rest obtain x s2 where g: "Cache_getitem cache ?key s2 = (Return v, s')"
      by (rule seq_ReturnE)
    from i obtain pc s0 where "ProcessCache_init name 100 s = (Return pc, s0)" and "cache = ProcessCache pc"
      by (elim seq_ReturnE) auto
    with ProcessCache_init_Return [of name 100 s pc s0]
    have "cache = ProcessCache \<lparr>pc_name = name, n_locks = 100\<rparr>" by simp
    with Cache_getitem_Return [OF g] p show ?thesis by (simp add: selected_cache_def)
  qed
qed


section \<open>The lock of a process cache\<close>

text \<open>
  C5. In \<open>ProcessCache.lock\<close> the \<open>with\<close> statement is over, and the lock released, when the \<open>finally\<close>
  clause deletes the entry of the key from the lock map: the removal does not happen under the
  lock. On one thread: deleting the slot of \<open>full_host\<close> under its lock gives the trace acquire,
  release, removal. With other threads the removal races. A thread deletes the slot while
  a reader waits for the lock; the reader gets the lock when it is released; the first thread
  then removes the entry, the key being absent, so that a second reader makes a new lock and
  enters too: both readers are in the critical section of the one property, holding different
  locks. And of two threads that delete the slot, the second finds no entry to remove and
  raises \<open>KeyError\<close>.
\<close>

theorem lock_entry_removal_races:
  "ProcessCache_lock key_hash \<lparr>pc_name = ''property_cache'', n_locks = 0\<rparr> (KStr ''prop'')
       (pc_delitem \<lparr>pc_name = ''property_cache'', n_locks = 0\<rparr> (KStr ''prop'')) full_host
     = (Return (),
        \<lparr>store = Some [(''property_cache'', ([], LockDict []))], store_lock = False,
         trace = [Acquire (KeyLock ''property_cache'' (KStr ''prop'')),
                  Release (KeyLock ''property_cache'' (KStr ''prop'')),
                  DelLock ''property_cache'' (KStr ''prop'')]\<rparr>)
   \<and> \<not> removal_under_lock []
         [Acquire (KeyLock ''property_cache'' (KStr ''prop'')),
          Release (KeyLock ''property_cache'' (KStr ''prop'')),
          DelLock ''property_cache'' (KStr ''prop'')]
   \<and> map at (threads (run_threads [0, 0, 0, 1, 0, 1, 0, 2, 2]
                 (shared_start [(KStr ''prop'', 1)] [deleter, reader, reader])))
     = [Left, Inside, Inside]
   \<and> map my_lock (threads (run_threads [0, 0, 0, 1, 0, 1, 0, 2, 2]
                 (shared_start [(KStr ''prop'', 1)] [deleter, reader, reader])))
     = [Some 0, Some 0, Some 1]
   \<and> map at (threads (run_threads [0, 0, 0, 0, 1, 1, 1, 1, 0, 1]
                 (shared_start [(KStr ''prop'', 1)] [deleter, deleter])))
     = [Left, Failed (KeyError (KStr ''prop''))]"
  by code_simp

section \<open>Memoized calls\<close>

text \<open>
  C3. A scope other than \<open>thread\<close> and \<open>process\<close> raises \<open>ValueError\<close> at the call, whatever the binding
  of the arguments, the hash and the callable are (so before the key is derived), and the state
  is the one before the call: no store is made, no lock taken, nothing looked up or invoked.
\<close>

theorem invalid_scope_raises:
  assumes "scope \<noteq> ''thread''" and "scope \<noteq> ''process''"
  shows "cached_call_impl h kh tid scope name callfunc init_method a s
           = (Raise (ValueError (''Invalid scope '' @ [CHR 0x27] @ scope @ [CHR 0x27])), s)
       \<and> cached_call h kh tid callfunc a scope cache_name s
           = (Raise (ValueError (''Invalid scope '' @ [CHR 0x27] @ scope @ [CHR 0x27])), s)
       \<and> Cached_call h kh tid (cls\<lparr>cache_scope := scope\<rparr>) a s
           = (Raise (ValueError (''Invalid scope '' @ [CHR 0x27] @ scope @ [CHR 0x27])), s)"
  using assms by (simp add: cached_call_impl_def cached_call_def Cached_call_def)

theorem invalid_scope_raises_witness:
  "''invalid'' \<noteq> ''thread'' \<and> ''invalid'' \<noteq> ''process''
   \<and> cached_call toy_hash key_hash 0 func ([py_int 3], []) ''invalid'' None fresh
       = (Raise (ValueError (''Invalid scope '' @ [CHR 0x27] @ ''invalid'' @ [CHR 0x27])), fresh)"
  using invalid_scope_raises [of "''invalid''" toy_hash key_hash 0 "''func''" func None "([py_int 3], [])" fresh None]
  by simp

text \<open>
  C1. A memoized call with a valid scope whose arguments bind. If the key (the hash of the bound
  arguments) is in the selected cache, the call returns the stored value and the state is
  unchanged: the callable is not invoked. If it is absent (and, in process scope, the call does
  not have to wait for a lock), the callable is invoked exactly once; when it returns a value,
  that value is stored under the key and returned (when it raises, the exception goes to the
  caller and nothing is stored). And whenever a call has returned a value, a next call whose
  bound arguments have the same hash returns that value and leaves the state unchanged.
\<close>

theorem cached_call_impl_memoizes:
  assumes scope: "scope = ''thread'' \<or> scope = ''process''"
    and b: "(case im of None \<Rightarrow> bind f a | Some b \<Rightarrow> b (py_none # fst a, snd a)) = Inr arguments"
    and r: "scope = ''process'' \<longrightarrow> ready kh name (KInt (hash_content h (py_dict arguments))) s"
  shows "(case map_of (selected_cache tid scope name s) (KInt (hash_content h (py_dict arguments))) of
            Some v \<Rightarrow> cached_call_impl h kh tid scope name f im a s = (Return v, s)
          | None \<Rightarrow>
              (\<exists>s'. cached_call_impl h kh tid scope name f im a s
                      = ((case fst (run f a (world s)) of Inr v \<Rightarrow> Return v | Inl e \<Rightarrow> Raise e), s')
                  \<and> map_of (selected_cache tid scope name s') (KInt (hash_content h (py_dict arguments)))
                      = (case fst (run f a (world s)) of Inr v \<Rightarrow> Some v | Inl e \<Rightarrow> None)
                  \<and> world s' = snd (run f a (world s))
                  \<and> invocations (trace s') = Suc (invocations (trace s))))
       \<and> (\<forall>v s' a2 arguments2.
             cached_call_impl h kh tid scope name f im a s = (Return v, s')
             \<and> (case im of None \<Rightarrow> bind f a2 | Some b \<Rightarrow> b (py_none # fst a2, snd a2)) = Inr arguments2
             \<and> hash_content h (py_dict arguments2) = hash_content h (py_dict arguments)
             \<longrightarrow> cached_call_impl h kh tid scope name f im a2 s' = (Return v, s'))"
proof (intro conjI allI impI)
  show "case map_of (selected_cache tid scope name s) (KInt (hash_content h (py_dict arguments))) of
            Some v \<Rightarrow> cached_call_impl h kh tid scope name f im a s = (Return v, s)
          | None \<Rightarrow>
              (\<exists>s'. cached_call_impl h kh tid scope name f im a s
                      = ((case fst (run f a (world s)) of Inr v \<Rightarrow> Return v | Inl e \<Rightarrow> Raise e), s')
                  \<and> map_of (selected_cache tid scope name s') (KInt (hash_content h (py_dict arguments)))
                      = (case fst (run f a (world s)) of Inr v \<Rightarrow> Some v | Inl e \<Rightarrow> None)
                  \<and> world s' = snd (run f a (world s))
                  \<and> invocations (trace s') = Suc (invocations (trace s)))"
  proof (cases "map_of (selected_cache tid scope name s) (KInt (hash_content h (py_dict arguments)))")
    case None
    from scope show ?thesis
    proof
      assume t: "scope = ''thread''"
      with None thread_miss [OF b, of tid name s h kh] show ?thesis
        by (simp add: selected_cache_def)
    next
      assume p: "scope = ''process''"
      with None r process_miss [OF b, of kh name h s tid] show ?thesis
        by (simp add: selected_cache_def)
    qed
  next
    case (Some v)
    from scope show ?thesis
    proof
      assume t: "scope = ''thread''"
      with Some thread_hit_call [OF b, of tid name s h v kh] show ?thesis
        by (simp add: selected_cache_def)
    next
      assume p: "scope = ''process''"
      with Some process_hit [OF b, of name s h v kh tid] show ?thesis
        by (simp add: selected_cache_def)
    qed
  qed
next
  fix v s' a2 arguments2
  assume a: "cached_call_impl h kh tid scope name f im a s = (Return v, s')
             \<and> (case im of None \<Rightarrow> bind f a2 | Some b \<Rightarrow> b (py_none # fst a2, snd a2)) = Inr arguments2
             \<and> hash_content h (py_dict arguments2) = hash_content h (py_dict arguments)"
  then have b2: "(case im of None \<Rightarrow> bind f a2 | Some b \<Rightarrow> b (py_none # fst a2, snd a2)) = Inr arguments2"
    and eq: "hash_content h (py_dict arguments2) = hash_content h (py_dict arguments)" by simp_all
  from a returned_is_stored [OF scope b, of h kh tid name s v s']
  have st: "map_of (selected_cache tid scope name s') (KInt (hash_content h (py_dict arguments2))) = Some v"
    using eq by simp
  from scope show "cached_call_impl h kh tid scope name f im a2 s' = (Return v, s')"
  proof
    assume t: "scope = ''thread''"
    with st thread_hit_call [OF b2, of tid name s' h v kh] show ?thesis
      by (simp add: selected_cache_def)
  next
    assume p: "scope = ''process''"
    with st process_hit [OF b2, of name s' h v kh tid] show ?thesis
      by (simp add: selected_cache_def)
  qed
qed

lemma func_key: "hash_content toy_hash (py_dict [(KStr ''x'', py_int 5)]) = 12"
  by (simp add: py_dict_def py_int_def hash_content_Dict hash_content_Atom toy_hash_def)

lemma func_bind_pos: "bind func ([py_int 5], []) = Inr [(KStr ''x'', py_int 5)]"
    and func_bind_kw: "bind func ([], [(''x'', py_int 5)]) = Inr [(KStr ''x'', py_int 5)]"
    by (simp_all add: func_def)

lemma fresh_ready: "ready key_hash ''func'' (KInt (hash_content toy_hash (py_dict [(KStr ''x'', py_int 5)]))) fresh"
    by (simp add: ready_def fresh_def cache_store_def)

lemma fresh_miss: "map_of (selected_cache 0 ''process'' ''func'' fresh) (KInt (hash_content toy_hash (py_dict [(KStr ''x'', py_int 5)]))) = None"
    by (simp add: selected_cache_def the_cache_def cache_store_def fresh_def)

lemma func_run: "run func ([py_int 5], []) (world fresh) = (Inr (py_tuple [py_int 5, py_int 0]), 1)"
    by (simp add: func_def fresh_def)

lemma fresh_invocations: "invocations (trace fresh) = 0" by (simp add: fresh_def)


theorem cached_call_impl_memoizes_witness:
  "(''process'' = ''thread'' \<or> ''process'' = ''process'')
   \<and> bind func ([py_int 5], []) = Inr [(KStr ''x'', py_int 5)]
   \<and> bind func ([], [(''x'', py_int 5)]) = Inr [(KStr ''x'', py_int 5)]
   \<and> ready key_hash ''func'' (KInt (hash_content toy_hash (py_dict [(KStr ''x'', py_int 5)]))) fresh
   \<and> (\<exists>s'. cached_call_impl toy_hash key_hash 0 ''process'' ''func'' func None ([py_int 5], []) fresh
              = (Return (py_tuple [py_int 5, py_int 0]), s')
          \<and> map_of (selected_cache 0 ''process'' ''func'' s') (KInt 12) = Some (py_tuple [py_int 5, py_int 0])
          \<and> world s' = 1
          \<and> invocations (trace s') = 1
          \<and> cached_call_impl toy_hash key_hash 0 ''process'' ''func'' func None ([], [(''x'', py_int 5)]) s'
              = (Return (py_tuple [py_int 5, py_int 0]), s'))"
proof -
  note T = cached_call_impl_memoizes [where scope = "''process''" and im = None and f = func
      and a = "([py_int 5], [])" and arguments = "[(KStr ''x'', py_int 5)]" and kh = key_hash
      and name = "''func''" and h = toy_hash and s = fresh and tid = 0]
  have T1: "case map_of (selected_cache 0 ''process'' ''func'' fresh) (KInt (hash_content toy_hash (py_dict [(KStr ''x'', py_int 5)]))) of
            Some v \<Rightarrow> cached_call_impl toy_hash key_hash 0  ''process'' ''func'' func None ([py_int 5], []) fresh = (Return v, fresh)
          | None \<Rightarrow>
              (\<exists>s'. cached_call_impl toy_hash key_hash 0  ''process'' ''func'' func None ([py_int 5], []) fresh
                      = ((case fst (run func ([py_int 5], []) (world fresh)) of Inr v \<Rightarrow> Return v | Inl e \<Rightarrow> Raise e), s')
                  \<and> map_of (selected_cache 0  ''process'' ''func'' s') (KInt (hash_content toy_hash (py_dict [(KStr ''x'', py_int 5)])))
                      = (case fst (run func ([py_int 5], []) (world fresh)) of Inr v \<Rightarrow> Some v | Inl e \<Rightarrow> None)
                  \<and> world s' = snd (run func ([py_int 5], []) (world fresh))
                  \<and> invocations (trace s') = Suc (invocations (trace fresh)))"
    by (rule T [THEN conjunct1]) (simp_all add: func_bind_pos fresh_ready)
  have T2: "cached_call_impl toy_hash key_hash 0 ''process'' ''func'' func None ([py_int 5], []) fresh = (Return v, s')
            \<Longrightarrow> cached_call_impl toy_hash key_hash 0 ''process'' ''func'' func None ([], [(''x'', py_int 5)]) s' = (Return v, s')"
    for v s'
    using T [THEN conjunct2, rule_format, of v s' "([], [(''x'', py_int 5)])" "[(KStr ''x'', py_int 5)]"]
    by (simp add: func_bind_pos func_bind_kw fresh_ready)
  from T1 obtain s' where
    c1: "cached_call_impl toy_hash key_hash 0 ''process'' ''func'' func None ([py_int 5], []) fresh
                 = (Return (py_tuple [py_int 5, py_int 0]), s')"
    and c2: "map_of (selected_cache 0 ''process'' ''func'' s') (KInt (hash_content toy_hash (py_dict [(KStr ''x'', py_int 5)])))
                 = Some (py_tuple [py_int 5, py_int 0])"
    and c3: "world s' = 1" and c4: "invocations (trace s') = Suc 0"
    unfolding fresh_miss func_run fresh_invocations by auto
  have c5: "cached_call_impl toy_hash key_hash 0 ''process'' ''func'' func None ([], [(''x'', py_int 5)]) s'
              = (Return (py_tuple [py_int 5, py_int 0]), s')"
    by (rule T2 [OF c1])
  have "\<exists>s'. cached_call_impl toy_hash key_hash 0 ''process'' ''func'' func None ([py_int 5], []) fresh
              = (Return (py_tuple [py_int 5, py_int 0]), s')
          \<and> map_of (selected_cache 0 ''process'' ''func'' s') (KInt 12) = Some (py_tuple [py_int 5, py_int 0])
          \<and> world s' = 1
          \<and> invocations (trace s') = 1
          \<and> cached_call_impl toy_hash key_hash 0 ''process'' ''func'' func None ([], [(''x'', py_int 5)]) s'
              = (Return (py_tuple [py_int 5, py_int 0]), s')"
    using c1 c2 c3 c4 c5 unfolding func_key by (intro exI [of _ s']) simp
  with func_bind_pos func_bind_kw fresh_ready show ?thesis by simp
qed


section \<open>Properties of the dependency-tracked properties\<close>

lemma map_entry_const:
  "map_of xs k = Some v \<Longrightarrow> AList.map_entry k f xs = AList.map_entry k (\<lambda>_. f v) xs"
  by (induction xs) auto

lemma map_entry_absent:
  "map_of xs k = None \<Longrightarrow> AList.map_entry k f xs = xs"
  by (induction xs) auto

lemma upd_locks_const:
  "upd_locks name (\<lambda>_. f (the_locks name s)) s = upd_locks name f s"
proof (cases "store s")
  case None
  then show ?thesis by (simp add: upd_locks_def)
next
  case (Some cs)
  show ?thesis
  proof (cases "map_of cs name")
    case None
    with Some show ?thesis by (simp add: upd_locks_def map_entry_absent)
  next
    case (Some cl)
    obtain c l where cl: "cl = (c, l)" by (cases cl)
    have tl: "the_locks name s = l" using \<open>store s = Some cs\<close> Some cl
      by (simp add: the_locks_def cache_store_def)
    have "AList.map_entry name (\<lambda>(c, l). (c, f l)) cs = AList.map_entry name (\<lambda>_. (c, f l)) cs"
      using map_entry_const [OF Some [unfolded cl], of "\<lambda>(c, l). (c, f l)"] by simp
    moreover have "AList.map_entry name (\<lambda>(c, l'). (c, f l)) cs = AList.map_entry name (\<lambda>_. (c, f l)) cs"
      using map_entry_const [OF Some [unfolded cl], of "\<lambda>(c, l'). (c, f l)"] by simp
    ultimately show ?thesis using \<open>store s = Some cs\<close> tl by (simp add: upd_locks_def)
  qed
qed

lemma update_as_map_entry:
  "AList.update key True m = AList.map_entry key (\<lambda>_. True) (if map_of m key = None then m @ [(key, False)] else m)"
  by (induction m) auto

lemma per_key_lock:
  assumes e: "map_of (cache_store s) name = Some (c, LockDict m)"
    and free: "map_of m key \<noteq> Some True"
    and body: "body (log (Acquire (KeyLock name key))
                 (upd_locks name (\<lambda>_. LockDict (AList.update key True m)) s)) = (res, s3)"
    and res: "res \<noteq> Blocked"
    and keep: "lock_entry name key s3 = Some True"
  shows "ProcessCache_lock kh \<lparr>pc_name = name, n_locks = 0\<rparr> key body s
           = (res, let s4 = log (Release (KeyLock name key)) (upd_locks name (set_held (DictRef key) False) s3)
                   in if map_of (the_cache name s4) key \<noteq> None then s4
                      else log (DelLock name key) (upd_locks name (drop_lock key) s4))"
proof -
  let ?pc = "\<lparr>pc_name = name, n_locks = 0\<rparr>"
  let ?m1 = "if map_of m key = None then m @ [(key, False)] else m"
  let ?l1 = "if map_of m key = None then LockDict (m @ [(key, False)]) else LockDict m"
  let ?s4 = "log (Release (KeyLock name key)) (upd_locks name (set_held (DictRef key) False) s3)"
  have l: "the_locks name s = LockDict m" using e by (simp add: the_locks_def)
  have g: "locks_getitem kh 0 key (LockDict m) = (Inr (DictRef key), ?l1)"
    by (simp add: locks_getitem_def)
  have nh: "\<not> held (DictRef key) ?l1" using free by (auto simp: map_add_def)
  have sh: "set_held (DictRef key) True ?l1 = LockDict (AList.update key True m)"
    by (simp add: update_as_map_entry)
  have w: "with_lock kh ?pc key body s = (res, ?s4)"
    using l g nh body res unfolding sh [symmetric]
    by (cases res) (simp_all add: with_lock_def)
  from keep obtain m3 where l3: "the_locks name s3 = LockDict m3" and k3: "map_of m3 key = Some True"
    by (cases "the_locks name s3") (simp_all add: lock_entry_def)
  have e3: "map_of (cache_store s3) name \<noteq> None"
  proof
    assume "map_of (cache_store s3) name = None"
    then have "the_locks name s3 = LockDict []" by (simp add: the_locks_def)
    with l3 k3 show False by simp
  qed
  have l4: "the_locks name ?s4 = LockDict (AList.map_entry key (\<lambda>_. False) m3)"
    using e3 l3 by (simp add: the_locks_upd_locks)
  have k4: "map_of (AList.map_entry key (\<lambda>_. False) m3) key = Some False"
    using k3 by (simp add: map_of_map_entry)
  have d: "locks_delitem key (the_locks name ?s4) = Inr (drop_lock key (the_locks name ?s4))"
    unfolding l4 using k4 by (simp add: locks_delitem_def drop_lock_def)
  show ?thesis
    unfolding ProcessCache_lock_def w Let_def using res d
    by (cases res) (simp_all add: lock_finally_def pc_contains_def upd_locks_const del: the_locks_simps)
qed


lemma per_key_lock_blocked:
  assumes e: "map_of (cache_store s) name = Some (c, LockDict m)"
    and free: "map_of m key \<noteq> Some True"
    and body: "body (log (Acquire (KeyLock name key))
                 (upd_locks name (\<lambda>_. LockDict (AList.update key True m)) s)) = (Blocked, s3)"
  shows "ProcessCache_lock kh \<lparr>pc_name = name, n_locks = 0\<rparr> key body s = (Blocked, s3)"
proof -
  let ?l1 = "if map_of m key = None then LockDict (m @ [(key, False)]) else LockDict m"
  have l: "the_locks name s = LockDict m" using e by (simp add: the_locks_def)
  have g: "locks_getitem kh 0 key (LockDict m) = (Inr (DictRef key), ?l1)"
    by (simp add: locks_getitem_def)
  have nh: "\<not> held (DictRef key) ?l1" using free by (auto simp: map_add_def)
  have sh: "set_held (DictRef key) True ?l1 = LockDict (AList.update key True m)"
    by (simp add: update_as_map_entry)
  have "with_lock kh \<lparr>pc_name = name, n_locks = 0\<rparr> key body s = (Blocked, s3)"
    using l g nh body unfolding sh [symmetric] by (simp add: with_lock_def)
  then show ?thesis by (simp add: ProcessCache_lock_def lock_finally_def)
qed

lemma owner_field_simps [simp]:
  "attrs (log e s) = attrs s" "files (log e s) = files s" "env (log e s) = env s"
  "attrs (upd_locks name f s) = attrs s" "files (upd_locks name f s) = files s" "env (upd_locks name f s) = env s"
  "attrs (upd_cache name g s) = attrs s" "files (upd_cache name g s) = files s" "env (upd_cache name g s) = env s"
  by (auto simp: log_def upd_locks_def upd_cache_def)

lemma owner_irrelevant [simp]:
  "the_cache name (s\<lparr>attrs := a\<rparr>) = the_cache name s"
  "the_cache name (s\<lparr>files := fs\<rparr>) = the_cache name s"
  "the_cache name (s\<lparr>env := w\<rparr>) = the_cache name s"
  "the_locks name (s\<lparr>attrs := a\<rparr>) = the_locks name s"
  "the_locks name (s\<lparr>files := fs\<rparr>) = the_locks name s"
  "the_locks name (s\<lparr>env := w\<rparr>) = the_locks name s"
  "cache_store (s\<lparr>attrs := a\<rparr>) = cache_store s"
  "cache_store (s\<lparr>files := fs\<rparr>) = cache_store s"
  "cache_store (s\<lparr>env := w\<rparr>) = cache_store s"
  by (auto simp: the_cache_def the_locks_def cache_store_def)

lemma pc_setitem_simps [simp]:
  "attrs (pc_setitem pc key v s) = attrs s" "files (pc_setitem pc key v s) = files s"
  "env (pc_setitem pc key v s) = env s"
  by (simp_all add: pc_setitem_def)

lemma pc_setitem_host_simps [simp]:
  "trace (pc_setitem pc key v s) = trace s"
  "the_locks name (pc_setitem pc key v s) = the_locks name s"
  "(map_of (cache_store (pc_setitem pc key v s)) name = None) = (map_of (cache_store s) name = None)"
  by (simp_all add: pc_setitem_def)

lemma the_cache_pc_setitem:
  "map_of (cache_store s) name \<noteq> None \<Longrightarrow>
     the_cache name (pc_setitem \<lparr>pc_name = name, n_locks = n\<rparr> key v s) = AList.update key v (the_cache name s)"
  by (simp add: pc_setitem_def the_cache_upd_cache)

lemma lock_entry_simps [simp]:
  "lock_entry name key (log e s) = lock_entry name key s"
  "lock_entry name key (upd_cache name' g s) = lock_entry name key s"
  "lock_entry name key (pc_setitem pc key' v s) = lock_entry name key s"
  by (simp_all add: lock_entry_def)

lemma lock_entry_exists:
  "lock_entry name key s = Some b \<Longrightarrow> map_of (cache_store s) name \<noteq> None"
  by (cases "map_of (cache_store s) name") (simp_all add: lock_entry_def the_locks_def)

lemma slot_of_simps [simp]:
  "slot_of n (log e s) = slot_of n s"
  "slot_of n (upd_locks name g s) = slot_of n s"
  by (simp_all add: slot_of_def)

lemma property_init_ready:
  assumes "property_ready n s"
  obtains s1 c m where "ProcessCache_init ''property_cache'' 0 s = (Return \<lparr>pc_name = ''property_cache'', n_locks = 0\<rparr>, s1)"
    and "map_of (cache_store s1) ''property_cache'' = Some (c, LockDict m)"
    and "map_of m (KStr n) \<noteq> Some True"
    and "the_cache ''property_cache'' s1 = the_cache ''property_cache'' s"
    and "attrs s1 = attrs s" and "env s1 = env s" and "files s1 = files s"
    and "invocations (trace s1) = invocations (trace s)"
    and "map_of (cache_store s) ''property_cache'' \<noteq> None \<Longrightarrow> s1 = s"
proof (cases "map_of (cache_store s) ''property_cache''")
  case (Some cl)
  obtain c l where cl: "cl = (c, l)" by (cases cl)
  from assms Some cl obtain m where l: "l = LockDict m" and f: "map_of m (KStr n) \<noteq> Some True"
    by (cases l) (simp_all add: property_ready_def)
  have "ProcessCache_init ''property_cache'' 0 s = (Return \<lparr>pc_name = ''property_cache'', n_locks = 0\<rparr>, s)"
    using process_init_existing [of s "''property_cache''" 0] Some by simp
  with Some cl l f that [of s c m] show ?thesis by simp
next
  case None
  let ?s1 = "snd (ProcessCache_init ''property_cache'' 0 s)"
  from assms have free: "\<not> store_lock s" by (simp add: property_ready_def)
  have "ProcessCache_init ''property_cache'' 0 s = (Return \<lparr>pc_name = ''property_cache'', n_locks = 0\<rparr>, ?s1)
      \<and> map_of (cache_store ?s1) ''property_cache'' = Some ([], LockDict [])
      \<and> the_cache ''property_cache'' ?s1 = the_cache ''property_cache'' s
      \<and> attrs ?s1 = attrs s \<and> env ?s1 = env s \<and> files ?s1 = files s
      \<and> invocations (trace ?s1) = invocations (trace s)"
    using None free
    by (cases "store s")
      (simp_all add: ProcessCache_init_def with_STORE_LOCK_def seq_Return log_def cache_store_def
        the_cache_def new_locks_def update_conv' invocations_append)
  with None that [of ?s1 "[]" "[]"] show ?thesis by simp
qed

lemma get_cache_plain:
  assumes m: "the_function p = Some f" and cls: "property_class p = CachedProperty"
  shows "get_cache p s = seq (ProcessCache_init ''property_cache'' 0 s)
            (\<lambda>pc s. (Return \<lparr>oc_cache = pc, oc_key = KStr (function_name f), oc_parent = None\<rparr>, s))"
  using m cls by (simp add: get_cache_def property_name_def)

lemma plain_get_unfold:
  assumes m: "the_function p = Some f" and cls: "property_class p = CachedProperty"
    and dv: "dependency_values ga p s = (Return dep_values, s0)"
    and init: "ProcessCache_init ''property_cache'' 0 s0 = (Return pc, s1)"
  shows "cached_property_get kh fmt tuple_eq ga p s =
           ProcessCache_lock kh pc (KStr (function_name f))
             (\<lambda>t. case tuple_ne tuple_eq (env t) dep_values
                          (map_option fst (map_of (the_cache (pc_name pc) t) (KStr (function_name f)))) of
                     Inl e \<Rightarrow> (Raise e, t)
                   | Inr True \<Rightarrow>
                       seq (call_function ga p t)
                         (\<lambda>result t. (Return result, pc_setitem pc (KStr (function_name f)) (dep_values, result) t))
                   | Inr False \<Rightarrow>
                       (Return (case map_of (the_cache (pc_name pc) t) (KStr (function_name f)) of
                                  None \<Rightarrow> PyNone | Some item \<Rightarrow> snd item), t)) s1"
proof -
  let ?c = "\<lparr>oc_cache = pc, oc_key = KStr (function_name f), oc_parent = None\<rparr>"
  let ?B1 = "\<lambda>s. seq (owned_full fmt ga ?c s)
                    (\<lambda>is_full s.
                       seq (if is_full
                            then seq (owned_retrieve fmt ga ?c s)
                                   (\<lambda>item s. (Return (Some (fst item), snd item), s))
                            else (Return (None, PyNone), s))
                         (\<lambda>(cached_dep_values, result) s.
                            case tuple_ne tuple_eq (env s) dep_values cached_dep_values of
                              Inl e \<Rightarrow> (Raise e, s)
                            | Inr True \<Rightarrow>
                                seq (call_function ga p s)
                                  (\<lambda>result s.
                                     seq (owned_insert fmt ga ?c (dep_values, result) s)
                                       (\<lambda>_ s. (Return result, s)))
                            | Inr False \<Rightarrow> (Return result, s)))"
  let ?B2 = "\<lambda>t. case tuple_ne tuple_eq (env t) dep_values
                          (map_option fst (map_of (the_cache (pc_name pc) t) (KStr (function_name f)))) of
                     Inl e \<Rightarrow> (Raise e, t)
                   | Inr True \<Rightarrow>
                       seq (call_function ga p t)
                         (\<lambda>result t. (Return result, pc_setitem pc (KStr (function_name f)) (dep_values, result) t))
                   | Inr False \<Rightarrow>
                       (Return (case map_of (the_cache (pc_name pc) t) (KStr (function_name f)) of
                                  None \<Rightarrow> PyNone | Some item \<Rightarrow> snd item), t)"
  have ins: "(\<lambda>result s. seq (owned_insert fmt ga ?c (dep_values, result) s) (\<lambda>_ s. (Return result, s)))
      = (\<lambda>result t. (Return result, pc_setitem pc (KStr (function_name f)) (dep_values, result) t))"
    by (intro ext) (simp add: owned_insert_def seq_Return)
  have eq: "?B1 = ?B2"
    unfolding ins
    by (rule ext)
      (auto simp: owned_full_def owned_retrieve_def pc_contains_def pc_getitem_def
        seq_Return split: option.splits)
  have "cached_property_get kh fmt tuple_eq ga p s = ProcessCache_lock kh pc (KStr (function_name f)) ?B1 s1"
    using dv init get_cache_plain [OF m cls, of s0]
    by (simp add: cached_property_get_def seq_Return owned_lock_def)
  also have "\<dots> = ProcessCache_lock kh pc (KStr (function_name f)) ?B2 s1"
    by (simp only: eq)
  finally show ?thesis .
qed


lemma enter_ready:
  assumes init: "ProcessCache_init ''property_cache'' 0 s = (r, s1)"
    and e1: "map_of (cache_store s1) ''property_cache'' = Some (c, LockDict m)"
  shows "enter n s = log (Acquire (KeyLock ''property_cache'' (KStr n)))
                       (upd_locks ''property_cache'' (\<lambda>_. LockDict (AList.update (KStr n) True m)) s1)"
proof -
  have l: "the_locks ''property_cache'' s1 = LockDict m" using e1 by (simp add: the_locks_def)
  show ?thesis
    unfolding enter_def init snd_conv
    using upd_locks_const [of "''property_cache''"
        "\<lambda>l. case l of LockDict m \<Rightarrow> LockDict (AList.update (KStr n) True m) | LockList ls \<Rightarrow> l" s1, symmetric]
    by (simp add: l)
qed

lemma critical_section:
  assumes e: "map_of (cache_store s1) ''property_cache'' = Some (c, LockDict m)"
    and free: "map_of m (KStr n) \<noteq> Some True"
    and body: "body (log (Acquire (KeyLock ''property_cache'' (KStr n)))
                 (upd_locks ''property_cache'' (\<lambda>_. LockDict (AList.update (KStr n) True m)) s1)) = (res, s3)"
    and res: "res \<noteq> Blocked"
    and keep: "lock_entry ''property_cache'' (KStr n) s3 = Some True"
  shows "fst (ProcessCache_lock kh \<lparr>pc_name = ''property_cache'', n_locks = 0\<rparr> (KStr n) body s1) = res"
    and "the_cache ''property_cache'' (snd (ProcessCache_lock kh \<lparr>pc_name = ''property_cache'', n_locks = 0\<rparr> (KStr n) body s1))
           = the_cache ''property_cache'' s3"
    and "attrs (snd (ProcessCache_lock kh \<lparr>pc_name = ''property_cache'', n_locks = 0\<rparr> (KStr n) body s1)) = attrs s3"
    and "env (snd (ProcessCache_lock kh \<lparr>pc_name = ''property_cache'', n_locks = 0\<rparr> (KStr n) body s1)) = env s3"
    and "files (snd (ProcessCache_lock kh \<lparr>pc_name = ''property_cache'', n_locks = 0\<rparr> (KStr n) body s1)) = files s3"
    and "invocations (trace (snd (ProcessCache_lock kh \<lparr>pc_name = ''property_cache'', n_locks = 0\<rparr> (KStr n) body s1)))
           = invocations (trace s3)"
    and "lock_entry ''property_cache'' (KStr n) (snd (ProcessCache_lock kh \<lparr>pc_name = ''property_cache'', n_locks = 0\<rparr> (KStr n) body s1))
           = (if slot_of n s3 = None then None else Some False)"
proof -
  let ?L = "ProcessCache_lock kh \<lparr>pc_name = ''property_cache'', n_locks = 0\<rparr> (KStr n) body s1"
  let ?s4 = "log (Release (KeyLock ''property_cache'' (KStr n)))
               (upd_locks ''property_cache'' (set_held (DictRef (KStr n)) False) s3)"
  let ?s5 = "log (DelLock ''property_cache'' (KStr n)) (upd_locks ''property_cache'' (drop_lock (KStr n)) ?s4)"
  have L: "?L = (res, if map_of (the_cache ''property_cache'' ?s4) (KStr n) \<noteq> None then ?s4 else ?s5)"
    using per_key_lock [where body = body and kh = kh, OF e free body res keep] by (simp add: Let_def)
  from keep obtain m3 where l3: "the_locks ''property_cache'' s3 = LockDict m3" and k3: "map_of m3 (KStr n) = Some True"
    by (cases "the_locks ''property_cache'' s3") (simp_all add: lock_entry_def)
  have e3: "map_of (cache_store s3) ''property_cache'' \<noteq> None" by (rule lock_entry_exists [OF keep])
  have l4: "the_locks ''property_cache'' ?s4 = LockDict (AList.map_entry (KStr n) (\<lambda>_. False) m3)"
    using e3 l3 by (simp add: the_locks_upd_locks)
  have e4: "map_of (cache_store ?s4) ''property_cache'' \<noteq> None" using e3 by simp
  have l5: "the_locks ''property_cache'' ?s5 = LockDict (AList.delete (KStr n) (AList.map_entry (KStr n) (\<lambda>_. False) m3))"
    using e4 l4 by (simp add: the_locks_upd_locks drop_lock_def del: the_locks_simps(2))
  show "fst ?L = res" by (simp add: L)
  show "the_cache ''property_cache'' (snd ?L) = the_cache ''property_cache'' s3" by (simp add: L)
  show "attrs (snd ?L) = attrs s3" by (simp add: L)
  show "env (snd ?L) = env s3" by (simp add: L)
  show "files (snd ?L) = files s3" by (simp add: L)
  show "invocations (trace (snd ?L)) = invocations (trace s3)" by (simp add: L invocations_append)
  show "lock_entry ''property_cache'' (KStr n) (snd ?L) = (if slot_of n s3 = None then None else Some False)"
  proof (cases "slot_of n s3 = None")
    case True
    then have "snd ?L = ?s5" by (simp add: L slot_of_def)
    then show ?thesis using True l5 by (simp add: lock_entry_def delete_conv' del: the_locks_simps)
  next
    case False
    then have "snd ?L = ?s4" by (simp add: L slot_of_def)
    then show ?thesis using False l4 k3 by (simp add: lock_entry_def map_of_map_entry del: the_locks_simps)
  qed
qed

text \<open>
  C2. A read of a \<open>cached_property\<close> whose dependencies have been read (they are attributes of the
  instance or of the class, or other properties, which the read computes), when it does not
  have to wait. If the slot is present and Python's \<open>==\<close> finds its snapshot equal to the fresh
  one, the stored value is returned and no function is invoked. If there is no slot, or the
  snapshots are not equal, the function is invoked on the owner, and when it returns, the pair
  of the fresh snapshot and the new value is stored in the slot and the new value is returned.
  (When the comparison of the snapshots raises, the exception goes to the caller and nothing
  is invoked or stored.)
\<close>

theorem cached_property_get_serves_or_recomputes:
  assumes m: "the_function p = Some f" and cls: "property_class p = CachedProperty"
    and dv: "dependency_values ga p s = (Return dep_values, s0)"
    and rdy: "property_ready (function_name f) s0"
  shows "case slot_of (function_name f) s0 of
           None \<Rightarrow> recomputes ga p (function_name f) dep_values s0 (cached_property_get kh fmt tuple_eq ga p s)
         | Some (cached_dep_values, v) \<Rightarrow>
             (case tuple_eq (env s0) dep_values cached_dep_values of
                Inr True \<Rightarrow> serves v s0 (cached_property_get kh fmt tuple_eq ga p s)
              | Inr False \<Rightarrow>
                  recomputes ga p (function_name f) dep_values s0 (cached_property_get kh fmt tuple_eq ga p s)
              | Inl e \<Rightarrow>
                  fst (cached_property_get kh fmt tuple_eq ga p s) = Raise e
                  \<and> untouched s0 (snd (cached_property_get kh fmt tuple_eq ga p s)))"
proof -
  let ?n = "function_name f"
  let ?key = "KStr ?n"
  let ?pcn = "''property_cache''"
  let ?pc = "\<lparr>pc_name = ?pcn, n_locks = 0\<rparr>"
  let ?get = "cached_property_get kh fmt tuple_eq ga p s"
  obtain s1 c m0 where init: "ProcessCache_init ?pcn 0 s0 = (Return ?pc, s1)"
    and e1: "map_of (cache_store s1) ?pcn = Some (c, LockDict m0)"
    and free: "map_of m0 ?key \<noteq> Some True"
    and c1: "the_cache ?pcn s1 = the_cache ?pcn s0"
    and a1: "attrs s1 = attrs s0" "env s1 = env s0" "files s1 = files s0"
    and i1: "invocations (trace s1) = invocations (trace s0)"
    using property_init_ready [OF rdy] by metis
  let ?s2 = "log (Acquire (KeyLock ?pcn ?key)) (upd_locks ?pcn (\<lambda>_. LockDict (AList.update ?key True m0)) s1)"
  let ?compute = "\<lambda>t. seq (call_function ga p t)
                         (\<lambda>result t. (Return result, pc_setitem ?pc ?key (dep_values, result) t))"
  let ?B = "\<lambda>t. case tuple_ne tuple_eq (env t) dep_values
                          (map_option fst (map_of (the_cache (pc_name ?pc) t) ?key)) of
                     Inl e \<Rightarrow> (Raise e, t)
                   | Inr True \<Rightarrow> ?compute t
                   | Inr False \<Rightarrow>
                       (Return (case map_of (the_cache (pc_name ?pc) t) ?key of
                                  None \<Rightarrow> PyNone | Some item \<Rightarrow> snd item), t)"
  have get: "?get = ProcessCache_lock kh ?pc ?key ?B s1"
    by (rule plain_get_unfold [OF m cls dv init])
  have ent: "enter ?n s0 = ?s2" by (rule enter_ready [OF init e1])
  have e10: "map_of (cache_store s1) ?pcn \<noteq> None" using e1 by simp
  have l2: "the_locks ?pcn ?s2 = LockDict (AList.update ?key True m0)"
    using e10 by (simp add: the_locks_upd_locks)
  have k2: "lock_entry ?pcn ?key ?s2 = Some True"
    unfolding lock_entry_def l2 by (simp add: update_conv')
  have c2: "the_cache ?pcn ?s2 = the_cache ?pcn s0" using c1 by simp
  have slot2: "map_of (the_cache ?pcn ?s2) ?key = slot_of ?n s0" using c2 by (simp add: slot_of_def)
  have env2: "env ?s2 = env s0" using a1 by simp
  have i2: "invocations (trace ?s2) = invocations (trace s0)" using i1 by (simp add: invocations_append)
  note cs = critical_section [where body = ?B and kh = kh, OF e1 free, folded get]
  have u2: "untouched s0 (snd ?get)" if "?B ?s2 = (res, ?s2)" and "res \<noteq> Blocked" for res
    using cs(2-6) [OF that k2] c2 a1 i2 by (simp add: untouched_def)
  have recompute: "recomputes ga p ?n dep_values s0 ?get" if B: "?B ?s2 = ?compute ?s2"
  proof -
    obtain r s3 where run: "call_function ga p ?s2 = (r, s3)" by (cases "call_function ga p ?s2")
    show ?thesis
    proof (cases r)
      case (Return v)
      let ?s3 = "pc_setitem ?pc ?key (dep_values, v) s3"
      have "?compute ?s2 = (Return v, ?s3)" by (simp add: run Return seq_Return)
      then have B3: "?B ?s2 = (Return v, ?s3)" by (rule trans [OF B])
      have "fst ?get = Return v
          \<and> the_cache ?pcn (snd ?get) = AList.update ?key (dep_values, v) (the_cache ?pcn s3)
          \<and> attrs (snd ?get) = attrs s3 \<and> env (snd ?get) = env s3 \<and> files (snd ?get) = files s3
          \<and> invocations (trace (snd ?get)) = invocations (trace s3)
          \<and> lock_entry ?pcn ?key (snd ?get) = Some False"
        if keep: "lock_entry ?pcn ?key s3 = Some True"
      proof -
        have k3: "lock_entry ?pcn ?key ?s3 = Some True" using keep by simp
        have e3: "map_of (cache_store s3) ?pcn \<noteq> None" by (rule lock_entry_exists [OF keep])
        have c3: "the_cache ?pcn ?s3 = AList.update ?key (dep_values, v) (the_cache ?pcn s3)"
          by (rule the_cache_pc_setitem [OF e3])
        have sl: "slot_of ?n ?s3 \<noteq> None" unfolding slot_of_def c3 by (simp add: update_conv')
        from cs [OF B3 _ k3] c3 sl show ?thesis by simp
      qed
      then show ?thesis unfolding recomputes_def ent run Return by simp
    next
      case (Raise e)
      have "?compute ?s2 = (Raise e, s3)" by (simp add: run Raise seq_Raise)
      then have B3: "?B ?s2 = (Raise e, s3)" by (rule trans [OF B])
      have "fst ?get = Raise e \<and> untouched s3 (snd ?get) \<and> lock_entry ?pcn ?key (snd ?get) \<noteq> Some True"
        if keep: "lock_entry ?pcn ?key s3 = Some True"
        using cs [OF B3 _ keep] by (simp add: untouched_def)
      then show ?thesis unfolding recomputes_def ent run Raise by simp
    next
      case Blocked
      have "?compute ?s2 = (Blocked, s3)" by (simp add: run Blocked seq_Blocked)
      then have B3: "?B ?s2 = (Blocked, s3)" by (rule trans [OF B])
      have "?get = (Blocked, s3)"
        unfolding get by (rule per_key_lock_blocked [where body = ?B and kh = kh, OF e1 free B3])
      then show ?thesis unfolding recomputes_def ent run Blocked by simp
    qed
  qed
  show ?thesis
  proof (cases "slot_of ?n s0")
    case None
    have "?B ?s2 = ?compute ?s2" using None slot2 by (simp add: tuple_ne_def)
    from recompute [OF this] None show ?thesis by simp
  next
    case (Some cv)
    obtain cd v where cv: "cv = (cd, v)" by (cases cv)
    show ?thesis
    proof (cases "tuple_eq (env s0) dep_values cd")
      case (Inl e)
      have "?B ?s2 = (Raise e, ?s2)" using Some cv slot2 env2 Inl by (simp add: tuple_ne_def)
      from cs(1) [OF this _ k2] u2 [OF this] Some cv Inl show ?thesis by simp
    next
      case (Inr b)
      show ?thesis
      proof (cases b)
        case True
        have "?B ?s2 = (Return v, ?s2)" using Some cv slot2 env2 Inr True by (simp add: tuple_ne_def)
        from cs(1) [OF this _ k2] u2 [OF this] Some cv Inr True show ?thesis by (simp add: serves_def)
      next
        case False
        have "?B ?s2 = ?compute ?s2" using Some cv slot2 env2 Inr False by (simp add: tuple_ne_def)
        from recompute [OF this] Some cv Inr False show ?thesis by simp
      qed
    qed
  qed
qed

lemma p1_function: "the_function p1 = Some (successor ''p0'' ''p1'')"
  by (simp add: p1_def cached_property_init_def)

lemma p1_class: "property_class p1 = CachedProperty"
  by (simp add: p1_def cached_property_init_def)

lemma p1_name: "function_name (successor ''p0'' ''p1'') = ''p1''"
  by (simp add: successor_def)


theorem cached_property_get_serves_or_recomputes_witness:
  "slot_of ''p1'' (snd (dependency_values crowded_getattr p1 new_object)) = None
   \<and> recomputes crowded_getattr p1 ''p1'' [Ref 0] (snd (dependency_values crowded_getattr p1 new_object))
         (cached_property_get key_hash no_format int_eq crowded_getattr p1 new_object)
   \<and> fst (cached_property_get key_hash no_format int_eq crowded_getattr p1 new_object) = Return (Ref 1)
   \<and> slot_of ''p1'' (snd (cached_property_get key_hash no_format int_eq crowded_getattr p1 new_object))
        = Some ([Ref 0], Ref 1)
   \<and> invocations (trace (snd (cached_property_get key_hash no_format int_eq crowded_getattr p1 new_object))) = 2
   \<and> slot_of ''p1'' (snd (dependency_values crowded_getattr p1 after_read)) = Some ([Ref 0], Ref 1)
   \<and> fst (dependency_values crowded_getattr p1 after_read) = Return [Ref 0]
   \<and> serves (Ref 1) (snd (dependency_values crowded_getattr p1 after_read))
         (cached_property_get key_hash no_format int_eq crowded_getattr p1 after_read)
   \<and> invocations (trace (snd (cached_property_get key_hash no_format int_eq crowded_getattr p1 after_read)))
        = invocations (trace after_read)
   \<and> slot_of ''p1'' (snd (dependency_values crowded_getattr p1 after_set)) = Some ([Ref 0], Ref 1)
   \<and> fst (dependency_values crowded_getattr p1 after_set) = Return [Ref 5]
   \<and> recomputes crowded_getattr p1 ''p1'' [Ref 5] (snd (dependency_values crowded_getattr p1 after_set))
         (cached_property_get key_hash no_format int_eq crowded_getattr p1 after_set)
   \<and> fst (cached_property_get key_hash no_format int_eq crowded_getattr p1 after_set) = Return (Ref 6)
   \<and> slot_of ''p1'' (snd (cached_property_get key_hash no_format int_eq crowded_getattr p1 after_set))
        = Some ([Ref 5], Ref 6)
   \<and> invocations (trace (snd (cached_property_get key_hash no_format int_eq crowded_getattr p1 after_set)))
        = Suc (invocations (trace after_set))"
proof -
  have n: "function_name (successor ''p0'' ''p1'') = ''p1''" by (simp add: successor_def)
  have dv1: "dependency_values crowded_getattr p1 new_object
      = (Return [Ref 0], snd (dependency_values crowded_getattr p1 new_object))"
    by code_simp
  have rdy1: "property_ready ''p1'' (snd (dependency_values crowded_getattr p1 new_object))" by code_simp
  have slot1: "slot_of ''p1'' (snd (dependency_values crowded_getattr p1 new_object)) = None" by code_simp
  have r1: "recomputes crowded_getattr p1 ''p1'' [Ref 0] (snd (dependency_values crowded_getattr p1 new_object))
         (cached_property_get key_hash no_format int_eq crowded_getattr p1 new_object)"
    using cached_property_get_serves_or_recomputes [OF p1_function p1_class dv1, of key_hash no_format int_eq]
    unfolding n slot1 using rdy1 by simp
  have v1: "fst (cached_property_get key_hash no_format int_eq crowded_getattr p1 new_object) = Return (Ref 1)"
    by code_simp
  have w1: "slot_of ''p1'' (snd (cached_property_get key_hash no_format int_eq crowded_getattr p1 new_object))
        = Some ([Ref 0], Ref 1)"
    by code_simp
  have i1: "invocations (trace (snd (cached_property_get key_hash no_format int_eq crowded_getattr p1 new_object))) = 2"
    by code_simp
  have dv2: "dependency_values crowded_getattr p1 after_read
      = (Return [Ref 0], snd (dependency_values crowded_getattr p1 after_read))"
    by code_simp
  have rdy2: "property_ready ''p1'' (snd (dependency_values crowded_getattr p1 after_read))" by code_simp
  have slot2: "slot_of ''p1'' (snd (dependency_values crowded_getattr p1 after_read)) = Some ([Ref 0], Ref 1)"
    by code_simp
  have r2: "serves (Ref 1) (snd (dependency_values crowded_getattr p1 after_read))
         (cached_property_get key_hash no_format int_eq crowded_getattr p1 after_read)"
    using cached_property_get_serves_or_recomputes [OF p1_function p1_class dv2, of key_hash no_format int_eq]
    unfolding n slot2 using rdy2 by (simp add: int_eq_def)
  have i2: "invocations (trace (snd (cached_property_get key_hash no_format int_eq crowded_getattr p1 after_read)))
        = invocations (trace after_read)"
    by code_simp
  have dv3: "dependency_values crowded_getattr p1 after_set
      = (Return [Ref 5], snd (dependency_values crowded_getattr p1 after_set))"
    by code_simp
  have rdy3: "property_ready ''p1'' (snd (dependency_values crowded_getattr p1 after_set))" by code_simp
  have slot3: "slot_of ''p1'' (snd (dependency_values crowded_getattr p1 after_set)) = Some ([Ref 0], Ref 1)"
    by code_simp
  have r3: "recomputes crowded_getattr p1 ''p1'' [Ref 5] (snd (dependency_values crowded_getattr p1 after_set))
         (cached_property_get key_hash no_format int_eq crowded_getattr p1 after_set)"
    using cached_property_get_serves_or_recomputes [OF p1_function p1_class dv3, of key_hash no_format int_eq]
    unfolding n slot3 using rdy3 by (simp add: int_eq_def)
  have v3: "fst (cached_property_get key_hash no_format int_eq crowded_getattr p1 after_set) = Return (Ref 6)"
    by code_simp
  have w3: "slot_of ''p1'' (snd (cached_property_get key_hash no_format int_eq crowded_getattr p1 after_set))
        = Some ([Ref 5], Ref 6)"
    by code_simp
  have i3: "invocations (trace (snd (cached_property_get key_hash no_format int_eq crowded_getattr p1 after_set)))
        = Suc (invocations (trace after_set))"
    by code_simp
  have f2: "fst (dependency_values crowded_getattr p1 after_read) = Return [Ref 0]" by (subst dv2) simp
  have f3: "fst (dependency_values crowded_getattr p1 after_set) = Return [Ref 5]" by (subst dv3) simp
  show ?thesis
    by (intro conjI slot1 r1 v1 w1 i1 slot2 f2 r2 i2 slot3 f3 r3 v3 w3 i3)
qed








lemma lazy_dependencies_pure:
  assumes "\<forall>x\<in>set xs. snd (ga x s) = s \<and> (unset_or_None (fst (ga x s)) \<or> present (fst (ga x s)))"
  shows "lazy_dependencies ga xs s = (Return (\<exists>x\<in>set xs. unset_or_None (fst (ga x s))), s)"
  using assms
proof (induction xs)
  case Nil
  then show ?case by simp
next
  case (Cons x xs)
  obtain r where g: "ga x s = (r, s)" using Cons.prems by (cases "ga x s") auto
  from Cons.prems g have r: "unset_or_None r \<or> present r" by simp
  have IH: "lazy_dependencies ga xs s = (Return (\<exists>x\<in>set xs. unset_or_None (fst (ga x s))), s)"
    using Cons by simp
  show ?case
  proof (cases r)
    case (Return v)
    then show ?thesis using g IH r by (cases v) (simp_all add: unset_or_None_def present_def)
  next
    case (Raise e)
    then show ?thesis using g r by (cases e) (simp_all add: unset_or_None_def present_def)
  next
    case Blocked
    then show ?thesis using r by (simp add: unset_or_None_def present_def)
  qed
qed

text \<open>
  C7, as the code has it. A read of a \<open>lazy_property\<close> first reads the dependencies, up to the
  first that is unset or \<open>None\<close>. If there is one, the read returns \<open>None\<close> in the state these reads
  leave, and does nothing else: it does not call \<open>get_cache\<close>, take a lock or invoke the function.
  If there is none, the read is the read of a \<open>cached_property\<close> in the state these reads leave.
  When the reads of the dependencies leave the state as it is (they are attributes of the
  instance or the class), the state is unchanged in the first case, and in the second the
  read is the read of a \<open>cached_property\<close>.
\<close>

theorem lazy_property_get_unset_or_delegates:
  assumes cls: "property_class p = LazyProperty"
  shows "(lazy_dependencies ga (dependencies p) s = (Return True, s') \<longrightarrow>
            property_get kh fmt tuple_eq ga p s = (Return PyNone, s'))
       \<and> (lazy_dependencies ga (dependencies p) s = (Return False, s') \<longrightarrow>
            property_get kh fmt tuple_eq ga p s = cached_property_get kh fmt tuple_eq ga p s')
       \<and> ((\<forall>x\<in>set (dependencies p). snd (ga x s) = s \<and> (unset_or_None (fst (ga x s)) \<or> present (fst (ga x s)))) \<longrightarrow>
            property_get kh fmt tuple_eq ga p s
              = (if \<exists>x\<in>set (dependencies p). unset_or_None (fst (ga x s)) then (Return PyNone, s)
                 else cached_property_get kh fmt tuple_eq ga p s))"
proof -
  have g: "property_get kh fmt tuple_eq ga p s
      = seq (lazy_dependencies ga (dependencies p) s)
          (\<lambda>some_is_None s. if some_is_None then (Return PyNone, s) else cached_property_get kh fmt tuple_eq ga p s)"
    using cls by (simp add: property_get_def lazy_property_get_def)
  have a: "lazy_dependencies ga (dependencies p) s = (Return True, s') \<longrightarrow>
            property_get kh fmt tuple_eq ga p s = (Return PyNone, s')"
    unfolding g by (simp add: seq_Return)
  have b: "lazy_dependencies ga (dependencies p) s = (Return False, s') \<longrightarrow>
            property_get kh fmt tuple_eq ga p s = cached_property_get kh fmt tuple_eq ga p s'"
    unfolding g by (simp add: seq_Return)
  have c: "(\<forall>x\<in>set (dependencies p). snd (ga x s) = s \<and> (unset_or_None (fst (ga x s)) \<or> present (fst (ga x s)))) \<longrightarrow>
            property_get kh fmt tuple_eq ga p s
              = (if \<exists>x\<in>set (dependencies p). unset_or_None (fst (ga x s)) then (Return PyNone, s)
                 else cached_property_get kh fmt tuple_eq ga p s)"
  proof
    assume "\<forall>x\<in>set (dependencies p). snd (ga x s) = s \<and> (unset_or_None (fst (ga x s)) \<or> present (fst (ga x s)))"
    from lazy_dependencies_pure [of "dependencies p" ga s, OF this] show "property_get kh fmt tuple_eq ga p s
              = (if \<exists>x\<in>set (dependencies p). unset_or_None (fst (ga x s)) then (Return PyNone, s)
                 else cached_property_get kh fmt tuple_eq ga p s)"
      unfolding g by (simp add: seq_Return)
  qed
  show ?thesis by (intro conjI a b c)
qed


theorem lazy_property_get_unset_or_delegates_witness:
  "property_class lazy_sum = LazyProperty
   \<and> dependencies lazy_sum = [''x'', ''y'']
   \<and> unset_or_None (fst (instance_getattr ''y'' y_is_None))
   \<and> property_get key_hash no_format int_eq instance_getattr lazy_sum y_is_None = (Return PyNone, y_is_None)
   \<and> present (fst (instance_getattr ''x'' both_set)) \<and> present (fst (instance_getattr ''y'' both_set))
   \<and> property_get key_hash no_format int_eq instance_getattr lazy_sum both_set
        = cached_property_get key_hash no_format int_eq instance_getattr lazy_sum both_set
   \<and> fst (property_get key_hash no_format int_eq instance_getattr lazy_sum both_set) = Return (Ref 7)
   \<and> property_class lazy_on_nothing = LazyProperty
   \<and> lazy_dependencies lazy_getattr (dependencies lazy_on_nothing) new_object
        = (Return True, snd (lazy_getattr ''nothing'' new_object))
   \<and> property_get key_hash no_format int_eq lazy_getattr lazy_on_nothing new_object
        = (Return PyNone, snd (lazy_getattr ''nothing'' new_object))"
proof -
  have cls: "property_class lazy_sum = LazyProperty"
    by (simp add: lazy_sum_def decorate_def lazy_property_init_def)
  have deps: "dependencies lazy_sum = [''x'', ''y'']"
    by (simp add: lazy_sum_def decorate_def lazy_property_init_def cached_property_init_def first_x_def)
  have x1: "instance_getattr ''x'' y_is_None = (Return (Ref 3), y_is_None)" by code_simp
  have y1: "instance_getattr ''y'' y_is_None = (Return PyNone, y_is_None)" by code_simp
  have x2: "instance_getattr ''x'' both_set = (Return (Ref 3), both_set)" by code_simp
  have y2: "instance_getattr ''y'' both_set = (Return (Ref 4), both_set)" by code_simp
  have h1: "\<forall>x\<in>set (dependencies lazy_sum). snd (instance_getattr x y_is_None) = y_is_None
      \<and> (unset_or_None (fst (instance_getattr x y_is_None)) \<or> present (fst (instance_getattr x y_is_None)))"
    by (simp add: deps x1 y1 unset_or_None_def present_def)
  have h2: "\<forall>x\<in>set (dependencies lazy_sum). snd (instance_getattr x both_set) = both_set
      \<and> (unset_or_None (fst (instance_getattr x both_set)) \<or> present (fst (instance_getattr x both_set)))"
    by (simp add: deps x2 y2 unset_or_None_def present_def)
  note T1 = lazy_property_get_unset_or_delegates [OF cls, where ga = instance_getattr and s = y_is_None
      and kh = key_hash and fmt = no_format and tuple_eq = int_eq and s' = y_is_None]
  note T2 = lazy_property_get_unset_or_delegates [OF cls, where ga = instance_getattr and s = both_set
      and kh = key_hash and fmt = no_format and tuple_eq = int_eq and s' = both_set]
  have u: "unset_or_None (fst (instance_getattr ''y'' y_is_None))" by (simp add: y1 unset_or_None_def)
  have r1: "property_get key_hash no_format int_eq instance_getattr lazy_sum y_is_None = (Return PyNone, y_is_None)"
    using T1 [THEN conjunct2, THEN conjunct2, THEN mp, OF h1] by (simp add: deps x1 y1 unset_or_None_def)
  have pr: "present (fst (instance_getattr ''x'' both_set))" "present (fst (instance_getattr ''y'' both_set))"
    by (simp_all add: x2 y2 present_def)
  have r2: "property_get key_hash no_format int_eq instance_getattr lazy_sum both_set
        = cached_property_get key_hash no_format int_eq instance_getattr lazy_sum both_set"
    using T2 [THEN conjunct2, THEN conjunct2, THEN mp, OF h2] by (simp add: deps x2 y2 unset_or_None_def)
  have v2: "fst (property_get key_hash no_format int_eq instance_getattr lazy_sum both_set) = Return (Ref 7)"
    by code_simp
  have cls3: "property_class lazy_on_nothing = LazyProperty"
    by (simp add: lazy_on_nothing_def lazy_property_init_def)
  have l3: "lazy_dependencies lazy_getattr (dependencies lazy_on_nothing) new_object
        = (Return True, snd (lazy_getattr ''nothing'' new_object))"
    by code_simp
  have r3: "property_get key_hash no_format int_eq lazy_getattr lazy_on_nothing new_object
        = (Return PyNone, snd (lazy_getattr ''nothing'' new_object))"
    by (rule lazy_property_get_unset_or_delegates [OF cls3, THEN conjunct1, THEN mp, OF l3])
  show ?thesis by (intro conjI cls deps u r1 pr r2 v2 cls3 l3 r3)
qed

text \<open>
  C7 as stated fails when a dependency is itself a cached property: the lazy property
  \<open>lazy_on_nothing\<close> depends on \<open>nothing\<close>, which is \<open>None\<close>; its read on a new object returns \<open>None\<close>, and
  has invoked the function of \<open>nothing\<close> and stored its slot on the object.
\<close>

theorem lazy_property_get_changes_host_counterexample:
  "unset_or_None (fst (lazy_getattr ''nothing'' new_object))
   \<and> fst (property_get key_hash no_format int_eq lazy_getattr lazy_on_nothing new_object) = Return PyNone
   \<and> store new_object = None
   \<and> store (snd (property_get key_hash no_format int_eq lazy_getattr lazy_on_nothing new_object))
        = Some [(''property_cache'', ([(KStr ''nothing'', ([], PyNone))], LockDict [(KStr ''nothing'', False)]))]
   \<and> invocations (trace new_object) = 0
   \<and> invocations (trace (snd (property_get key_hash no_format int_eq lazy_getattr lazy_on_nothing new_object))) = 1"
  by code_simp

lemma process_init_frame:
  assumes "map_of (cache_store s) name \<noteq> None \<or> \<not> store_lock s"
  shows "\<exists>s1 evs. ProcessCache_init name 0 s = (Return \<lparr>pc_name = name, n_locks = 0\<rparr>, s1)
      \<and> the_cache name s1 = the_cache name s
      \<and> the_locks name s1 = the_locks name s
      \<and> map_of (cache_store s1) name \<noteq> None
      \<and> store_lock s1 = store_lock s
      \<and> trace s1 = trace s @ evs \<and> set evs \<subseteq> {Acquire StoreLock, Release StoreLock}
      \<and> s1\<lparr>store := store s, trace := trace s\<rparr> = s
      \<and> (map_of (cache_store s) name \<noteq> None \<longrightarrow> s1 = s)"
proof (cases "map_of (cache_store s) name")
  case (Some cl)
  have "ProcessCache_init name 0 s = (Return \<lparr>pc_name = name, n_locks = 0\<rparr>, s)"
    using process_init_existing [of s name 0] Some by simp
  with Some show ?thesis by simp
next
  case None
  with assms have free: "\<not> store_lock s" by simp
  let ?s1 = "snd (ProcessCache_init name 0 s)"
  have "ProcessCache_init name 0 s = (Return \<lparr>pc_name = name, n_locks = 0\<rparr>, ?s1)
      \<and> the_cache name ?s1 = the_cache name s
      \<and> the_locks name ?s1 = the_locks name s
      \<and> map_of (cache_store ?s1) name \<noteq> None
      \<and> store_lock ?s1 = store_lock s
      \<and> (\<exists>evs. trace ?s1 = trace s @ evs \<and> set evs \<subseteq> {Acquire StoreLock, Release StoreLock})
      \<and> ?s1\<lparr>store := store s, trace := trace s\<rparr> = s"
    using None free
    by (cases "store s")
      (simp_all add: ProcessCache_init_def with_STORE_LOCK_def seq_Return log_def cache_store_def
        the_cache_def the_locks_def new_locks_def update_conv')
  with None show ?thesis by auto
qed

text \<open>
  C10. Deleting a \<open>cached_property\<close> whose slot is empty, when \<open>STORE_LOCK\<close> is free or the cache of
  the properties exists already: nothing is raised, the lock of the property is not taken
  (only \<open>STORE_LOCK\<close> may be), no slot and no lock entry changes, nor the attributes, the files
  or the world. On an owner that has the cache of the properties the state is unchanged; on
  one that has not, \<open>get_cache\<close> makes the store and the cache, under \<open>STORE_LOCK\<close>.
\<close>

theorem cached_property_delete_empty:
  assumes m: "the_function p = Some f" and cls: "property_class p = CachedProperty"
    and empty: "slot_of (function_name f) s = None"
    and free: "map_of (cache_store s) ''property_cache'' \<noteq> None \<or> \<not> store_lock s"
  shows "\<exists>s' evs. cached_property_delete kh fmt ga p s = (Return (), s')
      \<and> the_cache ''property_cache'' s' = the_cache ''property_cache'' s
      \<and> the_locks ''property_cache'' s' = the_locks ''property_cache'' s
      \<and> attrs s' = attrs s \<and> files s' = files s \<and> env s' = env s \<and> store_lock s' = store_lock s
      \<and> trace s' = trace s @ evs \<and> set evs \<subseteq> {Acquire StoreLock, Release StoreLock}
      \<and> (map_of (cache_store s) ''property_cache'' \<noteq> None \<longrightarrow> s' = s)"
proof -
  from process_init_frame [OF free]
  obtain s1 evs where init: "ProcessCache_init ''property_cache'' 0 s = (Return \<lparr>pc_name = ''property_cache'', n_locks = 0\<rparr>, s1)"
    and c1: "the_cache ''property_cache'' s1 = the_cache ''property_cache'' s"
    and l1: "the_locks ''property_cache'' s1 = the_locks ''property_cache'' s"
    and sl: "store_lock s1 = store_lock s"
    and tr: "trace s1 = trace s @ evs" "set evs \<subseteq> {Acquire StoreLock, Release StoreLock}"
    and rest: "s1\<lparr>store := store s, trace := trace s\<rparr> = s"
    and same: "map_of (cache_store s) ''property_cache'' \<noteq> None \<longrightarrow> s1 = s"
    by blast
  have a1: "attrs s1 = attrs s" "files s1 = files s" "env s1 = env s"
    using arg_cong [OF rest, of attrs] arg_cong [OF rest, of files] arg_cong [OF rest, of env] by simp_all
  have nf: "\<not> pc_contains \<lparr>pc_name = ''property_cache'', n_locks = 0\<rparr> (KStr (function_name f)) s1"
    using empty c1 by (simp add: pc_contains_def slot_of_def)
  have "cached_property_delete kh fmt ga p s = (Return (), s1)"
    using init nf get_cache_plain [OF m cls, of s]
    by (simp add: cached_property_delete_def seq_Return owned_full_def)
  with c1 l1 a1 sl tr same show ?thesis by blast
qed

theorem cached_property_delete_empty_witness:
  "\<exists>s' evs. cached_property_delete key_hash no_format crowded_getattr p1
                (snd (crowded_getattr ''p0'' new_object)) = (Return (), s')
      \<and> the_cache ''property_cache'' s' = the_cache ''property_cache'' (snd (crowded_getattr ''p0'' new_object))
      \<and> the_locks ''property_cache'' s' = the_locks ''property_cache'' (snd (crowded_getattr ''p0'' new_object))
      \<and> attrs s' = attrs (snd (crowded_getattr ''p0'' new_object))
      \<and> files s' = files (snd (crowded_getattr ''p0'' new_object))
      \<and> env s' = env (snd (crowded_getattr ''p0'' new_object))
      \<and> store_lock s' = store_lock (snd (crowded_getattr ''p0'' new_object))
      \<and> trace s' = trace (snd (crowded_getattr ''p0'' new_object)) @ evs
      \<and> set evs \<subseteq> {Acquire StoreLock, Release StoreLock}
      \<and> (map_of (cache_store (snd (crowded_getattr ''p0'' new_object))) ''property_cache'' \<noteq> None
            \<longrightarrow> s' = snd (crowded_getattr ''p0'' new_object))"
proof (rule cached_property_delete_empty)
  show "the_function p1 = Some (successor ''p0'' ''p1'')" by (rule p1_function)
  show "property_class p1 = CachedProperty" by (rule p1_class)
  show "slot_of (function_name (successor ''p0'' ''p1'')) (snd (crowded_getattr ''p0'' new_object)) = None"
    by code_simp
  show "map_of (cache_store (snd (crowded_getattr ''p0'' new_object))) ''property_cache'' \<noteq> None
      \<or> \<not> store_lock (snd (crowded_getattr ''p0'' new_object))"
    by code_simp
qed

text \<open>
  C10 as stated fails on an object none of whose properties has been used: deleting \<open>p1\<close> takes
  \<open>STORE_LOCK\<close> twice and puts the store, with an empty cache of the properties, into the
  \<open>__dict__\<close> of the object.
\<close>

theorem cached_property_delete_fresh_counterexample:
  "slot_of ''p1'' new_object = None
   \<and> store new_object = None
   \<and> cached_property_delete key_hash no_format crowded_getattr p1 new_object
     = (Return (),
        new_object\<lparr>store := Some [(''property_cache'', ([], LockDict []))],
                   trace := [Acquire StoreLock, Release StoreLock, Acquire StoreLock, Release StoreLock]\<rparr>)"
  by code_simp


end
